theory Spec2Isabelle
  imports Complex_Main
begin

section \<open>The sketch garden: data model\<close>

text \<open>
  The growth engine of the garden canvas component, embedded from the TypeScript
  source (\<^verbatim>\<open>types.ts\<close>, the garden canvas component and \<^verbatim>\<open>App.tsx\<close>).

  Conventions of the embedding.
  \<^item> A JavaScript number is a \<^typ>\<open>real\<close>: arithmetic is exact, and no value is NaN or
    infinite. The tick counter \<^verbatim>\<open>life\<close> and the branch depth \<^verbatim>\<open>generation\<close> only ever
    hold natural numbers (they start at 0 and grow by 1), so they are \<^typ>\<open>nat\<close>.
  \<^item> Settings objects live in an explicit object store: a grower, a bottle plant and a
    history item hold a reference (an address), as the source's objects do, so that
    sharing between the live settings and a grower is visible.
  \<^item> A canvas and its 2D context are one identity (\<^verbatim>\<open>getContext('2d')\<close> returns the same
    object for the same canvas); growers compare contexts by identity.
  \<^item> \<^verbatim>\<open>Math.random()\<close> reads the next element of a tape of numbers that is part of the
    state; every call of the source is one read, in the source's order.
  \<^item> The noise generator lives in a module outside these sources; it is a parameter
    \<open>noise\<close> of the functions that call it.
  \<^item> A canvas is what has been drawn on it; the style attributes the tick sets on a
    context before drawing (line cap, line join, alpha) are not modelled, and neither are
    the frame request at the end of a tick and the copying of settings by the context
    menu, which change nothing of the state below.
  \<^item> The optional field \<^verbatim>\<open>hasAttemptedFlower\<close> is a \<^typ>\<open>bool\<close>: absent counts as false,
    as the source's test \<^verbatim>\<open>!grower.hasAttemptedFlower\<close> reads it.
  \<^item> Record fields carry a prefix naming their record (\<open>g_\<close> for a grower, \<open>p_\<close> for a
    bottle plant, \<open>h_\<close> for a history item, \<open>d_\<close> for a drag state, \<open>r_\<close> for a
    rectangle, \<open>e_\<close> for a pointer event), since the source reuses field names.
\<close>

datatype PlantType = VINE | PALM | GEOMETRIC | UMBRELLA | BERRY

record PlantSettings =
  type :: PlantType
  stemColorStart :: string
  stemColorEnd :: string
  baseWidth :: real
  growthSpeed :: real
  maxLife :: real
  curlFactor :: real
  straightness :: real
  leafColorStart :: string
  leafColorEnd :: string
  leafFrequency :: real
  leafSize :: real
  flowerColorStart :: string
  flowerColorEnd :: string
  flowerProbability :: real
  flowerSize :: real
  petalCount :: real

text \<open>\<^verbatim>\<open>Partial<PlantSettings>\<close>: every field may be absent.\<close>

record PartialSettings =
  new_type :: "PlantType option"
  new_stemColorStart :: "string option"
  new_stemColorEnd :: "string option"
  new_baseWidth :: "real option"
  new_growthSpeed :: "real option"
  new_maxLife :: "real option"
  new_curlFactor :: "real option"
  new_straightness :: "real option"
  new_leafColorStart :: "string option"
  new_leafColorEnd :: "string option"
  new_leafFrequency :: "real option"
  new_leafSize :: "real option"
  new_flowerColorStart :: "string option"
  new_flowerColorEnd :: "string option"
  new_flowerProbability :: "real option"
  new_flowerSize :: "real option"
  new_petalCount :: "real option"

type_synonym settings_ref = nat

text \<open>
  Canvases. The outside canvas, the inside (composite) canvas and the offscreen canvases
  created by a spawn into the bottle. What a canvas shows is the list of the drawing
  commands issued on it since it was last wiped; the shapes are kept symbolic (a leaf is
  the command with its arguments, not its pixels).
\<close>

datatype canvas_id = CanvasOutside | CanvasInside | OffCanvas nat

datatype paint = Solid string | Lerp string string real

datatype draw_cmd =
    FillRect paint real real real real
  | ClearRect real real real real
  | Stroke real real real real real paint
  | LeafShape real real real real paint PlantType
  | FlowerShape real real real string string real PlantType "real list"
  | DrawImage "draw_cmd list" real real

record canvas =
  cwidth :: real
  cheight :: real
  content :: "draw_cmd list"

record Grower =
  g_id :: real
  g_x :: real
  g_y :: real
  g_angle :: real
  g_life :: nat
  g_maxLife :: real
  g_width :: real
  g_speed :: real
  g_color :: string
  g_settings :: settings_ref
  g_noiseOffset :: real
  g_generation :: nat
  g_ctx :: canvas_id
  g_hasAttemptedFlower :: bool

record BottlePlant =
  p_id :: real
  p_originX :: real
  p_currentX :: real
  p_y :: real
  p_canvas :: canvas_id
  p_ctx :: canvas_id
  p_settings :: settings_ref

record DragState =
  d_plantId :: real
  d_startX :: real
  d_plantStartX :: real

record PlantHistoryItem =
  h_x :: real
  h_y :: real
  h_settings :: settings_ref
  h_timestamp :: real

record DOMRect =
  r_left :: real
  r_top :: real
  r_right :: real
  r_bottom :: real

record PointerEvent =
  e_clientX :: real
  e_clientY :: real
  e_button :: nat
  e_buttons :: nat

text \<open>
  What the page answers when the component asks: the container's bounding rectangle (if
  the container is mounted), whether each canvas is mounted and gives a 2D context,
  whether a newly created canvas gives one, and the clock.
\<close>

record dom =
  containerRect :: "DOMRect option"
  outsideCanvas :: bool
  outsideContext :: bool
  insideCanvas :: bool
  insideContext :: bool
  offscreenContext :: bool
  now :: real

text \<open>
  The state of the application: the refs of the canvas component (\<open>growers\<close>,
  \<open>bottlePlants\<close>, \<open>plantHistory\<close>, \<open>bottleRect\<close>, \<open>dragState\<close>), its \<open>dimensions\<close>, the
  \<open>settings\<close> it receives from the application (a reference to the live settings
  object), the object store of settings objects, the canvases, and the random tape.
\<close>

record garden =
  heap :: "settings_ref \<Rightarrow> PlantSettings"
  heapNext :: settings_ref
  settings :: settings_ref
  dimensions :: "real \<times> real"
  canvases :: "canvas_id \<Rightarrow> canvas"
  canvasNext :: nat
  growers :: "Grower list"
  bottlePlants :: "BottlePlant list"
  plantHistory :: "PlantHistoryItem list"
  bottleRect :: "DOMRect option"
  dragState :: "DragState option"
  rnd :: "nat \<Rightarrow> real"
  rndPos :: nat

section \<open>Primitives: random numbers, objects, canvases\<close>

definition mathRandom :: "garden \<Rightarrow> real \<times> garden" where
  "mathRandom s = (rnd s (rndPos s), s\<lparr>rndPos := Suc (rndPos s)\<rparr>)"

text \<open>
  \<^verbatim>\<open>uuid()\<close> renders one random number in base 36 and keeps nine digits of it. The model
  keeps the number itself as the identifier.
\<close>

definition uuid :: "garden \<Rightarrow> real \<times> garden" where
  "uuid s = mathRandom s"

text \<open>A new settings object (an object literal) gets the next free address.\<close>

definition newObject :: "PlantSettings \<Rightarrow> garden \<Rightarrow> settings_ref \<times> garden" where
  "newObject v s =
     (heapNext s, s\<lparr>heap := (heap s)(heapNext s := v), heapNext := Suc (heapNext s)\<rparr>)"

definition draw :: "canvas_id \<Rightarrow> draw_cmd \<Rightarrow> garden \<Rightarrow> garden" where
  "draw c cmd s =
     s\<lparr>canvases := (canvases s)
        (c := (canvases s c)\<lparr>content := content (canvases s c) @ [cmd]\<rparr>)\<rparr>"

text \<open>
  A rectangle covers a canvas when it contains the canvas's area. \<^verbatim>\<open>clearRect\<close> over a
  covering rectangle leaves the canvas empty, and an opaque \<^verbatim>\<open>fillRect\<close> over one leaves
  the fill alone; over a smaller rectangle either is one more command.
\<close>

definition covers :: "real \<Rightarrow> real \<Rightarrow> real \<Rightarrow> real \<Rightarrow> canvas \<Rightarrow> bool" where
  "covers rx ry rw rh c \<longleftrightarrow> rx \<le> 0 \<and> ry \<le> 0 \<and> cwidth c \<le> rx + rw \<and> cheight c \<le> ry + rh"

definition clearRect :: "canvas_id \<Rightarrow> real \<Rightarrow> real \<Rightarrow> real \<Rightarrow> real \<Rightarrow> garden \<Rightarrow> garden" where
  "clearRect c rx ry rw rh s =
     (if covers rx ry rw rh (canvases s c)
      then s\<lparr>canvases := (canvases s)(c := (canvases s c)\<lparr>content := []\<rparr>)\<rparr>
      else draw c (ClearRect rx ry rw rh) s)"

definition fillRect :: "canvas_id \<Rightarrow> string \<Rightarrow> real \<Rightarrow> real \<Rightarrow> real \<Rightarrow> real \<Rightarrow> garden \<Rightarrow> garden" where
  "fillRect c col rx ry rw rh s =
     (if covers rx ry rw rh (canvases s c)
      then s\<lparr>canvases := (canvases s)
             (c := (canvases s c)\<lparr>content := [FillRect (Solid col) rx ry rw rh]\<rparr>)\<rparr>
      else draw c (FillRect (Solid col) rx ry rw rh) s)"

text \<open>\<^verbatim>\<open>lerpColor\<close> clamps \<open>t\<close> to the unit interval; the blend itself stays symbolic.\<close>

definition lerpColor :: "string \<Rightarrow> string \<Rightarrow> real \<Rightarrow> paint" where
  "lerpColor start end' t = Lerp start end' (max 0 (min 1 t))"

section \<open>Creating growers, spawning, undoing\<close>

definition createGrower ::
  "real \<Rightarrow> real \<Rightarrow> settings_ref \<Rightarrow> canvas_id \<Rightarrow> nat \<Rightarrow> real option \<Rightarrow> garden \<Rightarrow> Grower \<times> garden"
where
  "createGrower x0 y0 plantSettings ctx generation initialAngle s =
     (let baseAngle = - pi / 2;
          (startAngle, s1) =
             (case initialAngle of
                Some a \<Rightarrow> (a, s)
              | None \<Rightarrow> (let (r, s') = mathRandom s in (baseAngle + (r * 0.2 - 0.1), s')));
          (newId, s2) = uuid s1;
          (r2, s3) = mathRandom s2
      in (\<lparr>g_id = newId,
           g_x = x0,
           g_y = y0,
           g_angle = startAngle,
           g_life = 0,
           g_maxLife = maxLife (heap s plantSettings) / (real generation + 1),
           g_width = baseWidth (heap s plantSettings) / (real generation + 1),
           g_speed = growthSpeed (heap s plantSettings),
           g_color = stemColorStart (heap s plantSettings),
           g_settings = plantSettings,
           g_noiseOffset = r2 * 1000,
           g_generation = generation,
           g_ctx = ctx,
           g_hasAttemptedFlower = False\<rparr>, s3))"

definition pushHistory :: "PlantHistoryItem \<Rightarrow> PlantHistoryItem list \<Rightarrow> PlantHistoryItem list" where
  "pushHistory item hs = (let hs' = hs @ [item] in if length hs' > 50 then tl hs' else hs')"

text \<open>
  \<^verbatim>\<open>spawnPlant\<close>. The history item holds a copy of the settings (\<^verbatim>\<open>{ ...s }\<close>, a new
  object); the bottle plant and the grower hold the reference \<open>s\<close> itself. An offscreen
  canvas whose context cannot be obtained is stored nowhere, so that branch returns the
  state without it.
\<close>

definition spawnPlant ::
  "dom \<Rightarrow> real \<Rightarrow> real \<Rightarrow> settings_ref option \<Rightarrow> bool \<Rightarrow> garden \<Rightarrow> garden"
where
  "spawnPlant d x0 y0 overrideSettings isInsideBottle s =
     (let sref = (case overrideSettings of Some r \<Rightarrow> r | None \<Rightarrow> settings s);
          (copy, s1) = newObject (heap s sref) s;
          s2 = s1\<lparr>plantHistory :=
                 pushHistory \<lparr>h_x = x0, h_y = y0, h_settings = copy, h_timestamp = now d\<rparr>
                   (plantHistory s1)\<rparr>
      in if isInsideBottle then
           (let offCanvas = OffCanvas (canvasNext s2);
                s3 = s2\<lparr>canvases := (canvases s2)
                        (offCanvas := \<lparr>cwidth = fst (dimensions s2),
                                       cheight = snd (dimensions s2), content = []\<rparr>),
                      canvasNext := Suc (canvasNext s2)\<rparr>
            in if offscreenContext d then
                 (let (plantId, s4) = uuid s3;
                      newBottlePlant = \<lparr>p_id = plantId, p_originX = x0, p_currentX = x0,
                         p_y = y0, p_canvas = offCanvas, p_ctx = offCanvas, p_settings = sref\<rparr>;
                      s5 = s4\<lparr>bottlePlants := bottlePlants s4 @ [newBottlePlant]\<rparr>;
                      (g, s6) = createGrower x0 y0 sref offCanvas 0 None s5
                  in s6\<lparr>growers := growers s6 @ [g]\<rparr>)
               else s2)
         else if outsideCanvas d \<and> outsideContext d then
           (let (g, s3) = createGrower x0 y0 sref CanvasOutside 0 None s2
            in s3\<lparr>growers := growers s3 @ [g]\<rparr>)
         else s2)"

definition undoLastBottlePlant :: "garden \<Rightarrow> garden" where
  "undoLastBottlePlant s =
     (case rev (bottlePlants s) of
        [] \<Rightarrow> s
      | popped # _ \<Rightarrow>
          s\<lparr>bottlePlants := butlast (bottlePlants s),
            growers := filter (\<lambda>g. g_ctx g \<noteq> p_ctx popped) (growers s)\<rparr>)"

definition updateBottleRect :: "DOMRect \<Rightarrow> garden \<Rightarrow> garden" where
  "updateBottleRect rect s = s\<lparr>bottleRect := Some rect\<rparr>"

section \<open>Drawing leaves and flowers\<close>

text \<open>
  \<^verbatim>\<open>drawLeaf\<close> jitters the size with one random number and draws a shape that depends on
  the plant type; the shape is the command \<open>LeafShape\<close> with the arguments of the call.
\<close>

definition drawLeaf ::
  "canvas_id \<Rightarrow> real \<Rightarrow> real \<Rightarrow> real \<Rightarrow> real \<Rightarrow> paint \<Rightarrow> PlantType \<Rightarrow> garden \<Rightarrow> garden"
where
  "drawLeaf ctx lx ly ang baseSize col ty s =
     (let (r, s1) = mathRandom s;
          size = baseSize * (0.8 + r * 0.4)
      in draw ctx (LeafShape lx ly ang size col ty) s1)"

text \<open>
  \<^verbatim>\<open>drawFlower\<close> jitters the size with one random number. The berry cluster then reads
  three random numbers for each berry (\<^verbatim>\<open>Math.floor(petals) || 3\<close> berries), the spathe
  of the umbrella plant reads one (its rotation), the other types read none. The command
  \<open>FlowerShape\<close> records the arguments and the numbers read.
\<close>

definition berryCount :: "real \<Rightarrow> nat" where
  "berryCount petals = (if \<lfloor>petals\<rfloor> = 0 then 3 else nat \<lfloor>petals\<rfloor>)"

definition flowerDraws :: "PlantType \<Rightarrow> real \<Rightarrow> nat" where
  "flowerDraws ty petals =
     (case ty of
        GEOMETRIC \<Rightarrow> 0
      | BERRY \<Rightarrow> 3 * berryCount petals
      | UMBRELLA \<Rightarrow> 1
      | _ \<Rightarrow> 0)"

definition drawFlower ::
  "canvas_id \<Rightarrow> real \<Rightarrow> real \<Rightarrow> real \<Rightarrow> string \<Rightarrow> string \<Rightarrow> real \<Rightarrow> PlantType \<Rightarrow> garden \<Rightarrow> garden"
where
  "drawFlower ctx fx fy baseSize startColor endColor petals ty s =
     (let (r, s1) = mathRandom s;
          size = baseSize * (0.85 + r * 0.3);
          n = flowerDraws ty petals;
          rs = map (\<lambda>i. rnd s1 (rndPos s1 + i)) [0..<n];
          s2 = s1\<lparr>rndPos := rndPos s1 + n\<rparr>
      in draw ctx (FlowerShape fx fy size startColor endColor petals ty rs) s2)"

section \<open>One tick of one grower\<close>

text \<open>
  The callback of \<^verbatim>\<open>growersRef.current.forEach\<close> in \<^verbatim>\<open>update\<close>. It mutates its grower,
  draws on the grower's canvas, reads random numbers and may push one new grower on the
  array; it reads no other grower. So one call is a function from the grower and the
  state to the grower as mutated, the growers pushed, and the state.
\<close>

definition isTerminal :: "Grower \<Rightarrow> bool" where
  "isTerminal g \<longleftrightarrow> real (g_life g) \<ge> g_maxLife g \<or> g_width g < 0.1"

definition attemptFlower :: "Grower \<Rightarrow> garden \<Rightarrow> garden" where
  "attemptFlower g s =
     (let st = heap s (g_settings g) in
      if g_generation g < 2 then
        (let (r, s1) = mathRandom s in
         if r < flowerProbability st
         then drawFlower (g_ctx g) (g_x g) (g_y g) (flowerSize st) (flowerColorStart st)
                (flowerColorEnd st) (petalCount st) (type st) s1
         else s1)
      else s)"

definition terminalStep :: "Grower \<Rightarrow> garden \<Rightarrow> Grower \<times> Grower list \<times> garden" where
  "terminalStep g s =
     (let (g1, s1) =
            (if \<not> g_hasAttemptedFlower g
             then (g\<lparr>g_hasAttemptedFlower := True\<rparr>, attemptFlower g s)
             else (g, s))
      in (g1\<lparr>g_life := Suc (g_life g1)\<rparr>, [], s1))"

definition updateAngle ::
  "(real \<Rightarrow> real \<Rightarrow> real \<Rightarrow> real) \<Rightarrow> Grower \<Rightarrow> garden \<Rightarrow> real \<times> garden"
where
  "updateAngle noise g s =
     (let st = heap s (g_settings g);
          life = real (g_life g);
          progress = life / g_maxLife g;
          targetAngle = - pi / 2
      in if type st = GEOMETRIC then
           (let (r1, s1) = mathRandom s;
                (a1, s2) =
                   (if r1 < 0.05
                    then (let (r2, s') = mathRandom s1
                          in (g_angle g + (if r2 > 0.5 then 1 else - 1) * (pi / 6), s'))
                    else (g_angle g, s1))
            in (a1 + (targetAngle - a1) * 0.02, s2))
         else if type st = BERRY then
           (let n = noise (g_x g * 0.02) (g_y g * 0.02) (g_noiseOffset g + life * 0.05);
                a1 = g_angle g + n * (curlFactor st * 2)
            in (a1 + (targetAngle - a1) * 0.02, s))
         else if progress < straightness st then
           (let correction = (targetAngle - g_angle g) * 0.1;
                (r, s1) = mathRandom s;
                wobble = (r - 0.5) * 0.05
            in (g_angle g + (correction + wobble), s1))
         else
           (let n = noise (g_x g * 0.01) (g_y g * 0.01) (g_noiseOffset g + life * 0.02)
            in (g_angle g + n * curlFactor st, s)))"

definition drawStem :: "Grower \<Rightarrow> real \<Rightarrow> real \<Rightarrow> garden \<Rightarrow> garden" where
  "drawStem g nextX nextY s =
     (let st = heap s (g_settings g);
          progress = real (g_life g) / g_maxLife g;
          stemColor = lerpColor (stemColorStart st) (stemColorEnd st) progress;
          currentWidth = g_width g * (1 - progress)
      in draw (g_ctx g) (Stroke (g_x g) (g_y g) nextX nextY (max 0.5 currentWidth) stemColor) s)"

definition leafAngleOffset :: "PlantType \<Rightarrow> garden \<Rightarrow> real \<times> garden" where
  "leafAngleOffset ty s =
     (if ty = PALM then
        (let (r, s1) = mathRandom s in (if r > 0.5 then pi / 3 else - pi / 3, s1))
      else if ty = GEOMETRIC then
        (let (r, s1) = mathRandom s in (if r > 0.5 then pi / 2 else - pi / 2, s1))
      else if ty = UMBRELLA then
        (let (r, s1) = mathRandom s in (r - 0.5, s1))
      else
        (let (r, s1) = mathRandom s;
             (r', s2) = mathRandom s1
         in ((if r > 0.5 then pi / 2 else - pi / 2) + (r' * 0.5 - 0.25), s2)))"

definition leafTrial :: "Grower \<Rightarrow> real \<Rightarrow> garden \<Rightarrow> garden" where
  "leafTrial g ang s =
     (let st = heap s (g_settings g);
          progress = real (g_life g) / g_maxLife g;
          (r, s1) = mathRandom s
      in if r < leafFrequency st then
           (let (off, s2) = leafAngleOffset (type st) s1;
                leafColor = lerpColor (leafColorStart st) (leafColorEnd st) progress
            in drawLeaf (g_ctx g) (g_x g) (g_y g) (ang + off) (leafSize st) leafColor (type st) s2)
         else s1)"

definition branchChance :: "PlantType \<Rightarrow> real" where
  "branchChance ty =
     (case ty of VINE \<Rightarrow> 0.015 | PALM \<Rightarrow> 0.005 | GEOMETRIC \<Rightarrow> 0.04
               | UMBRELLA \<Rightarrow> 0.002 | BERRY \<Rightarrow> 0.04)"

definition branchAngleOffset :: "PlantType \<Rightarrow> real" where
  "branchAngleOffset ty = (case ty of GEOMETRIC \<Rightarrow> 0.8 | BERRY \<Rightarrow> 0.9 | _ \<Rightarrow> 0.6)"

definition branchTrial :: "Grower \<Rightarrow> real \<Rightarrow> garden \<Rightarrow> Grower list \<times> garden" where
  "branchTrial g ang s =
     (let st = heap s (g_settings g) in
      if g_generation g < 2 then
        (let (r, s1) = mathRandom s in
         if r < branchChance (type st) then
           (let (r2, s2) = mathRandom s1;
                branchAngle = ang + (if r2 > 0.5 then branchAngleOffset (type st)
                                     else - branchAngleOffset (type st));
                (child, s3) = createGrower (g_x g) (g_y g) (g_settings g) (g_ctx g)
                                (g_generation g + 1) (Some branchAngle) s2
            in ([child], s3))
         else ([], s1))
      else ([], s))"

definition growStep ::
  "(real \<Rightarrow> real \<Rightarrow> real \<Rightarrow> real) \<Rightarrow> Grower \<Rightarrow> garden \<Rightarrow> Grower \<times> Grower list \<times> garden"
where
  "growStep noise g s =
     (let (ang, s1) = updateAngle noise g s;
          nextX = g_x g + cos ang * g_speed g;
          nextY = g_y g + sin ang * g_speed g;
          s2 = drawStem g nextX nextY s1;
          s3 = leafTrial g ang s2;
          (pushed, s4) = branchTrial g ang s3
      in (g\<lparr>g_angle := ang, g_x := nextX, g_y := nextY, g_life := Suc (g_life g)\<rparr>,
          pushed, s4))"

definition stepGrower ::
  "(real \<Rightarrow> real \<Rightarrow> real \<Rightarrow> real) \<Rightarrow> Grower \<Rightarrow> garden \<Rightarrow> Grower \<times> Grower list \<times> garden"
where
  "stepGrower noise g s = (if isTerminal g then terminalStep g s else growStep noise g s)"

section \<open>The tick\<close>

text \<open>
  \<^verbatim>\<open>forEach\<close> visits the growers that were in the array when it started, in order; a grower
  pushed during the visit is in the array afterwards, behind them, and is not visited.
  The result is the visited growers as mutated, the growers pushed, and the state.
\<close>

fun forEachGrower ::
  "(real \<Rightarrow> real \<Rightarrow> real \<Rightarrow> real) \<Rightarrow> Grower list \<Rightarrow> garden \<Rightarrow> Grower list \<times> Grower list \<times> garden"
where
  "forEachGrower noise [] s = ([], [], s)"
| "forEachGrower noise (g # gs) s =
     (let (g', pushed, s1) = stepGrower noise g s;
          (gs', pushed', s2) = forEachGrower noise gs s1
      in (g' # gs', pushed @ pushed', s2))"

definition keepAlive :: "Grower \<Rightarrow> bool" where
  "keepAlive g \<longleftrightarrow> real (g_life g) < g_maxLife g + 50"

definition compositeBottlePlants :: "garden \<Rightarrow> garden" where
  "compositeBottlePlants s =
     fold (\<lambda>plant s'. draw CanvasInside
             (DrawImage (content (canvases s' (p_canvas plant)))
                (p_currentX plant - p_originX plant) 0) s')
       (bottlePlants s)
       (clearRect CanvasInside 0 0 (fst (dimensions s)) (snd (dimensions s)) s)"

definition update :: "(real \<Rightarrow> real \<Rightarrow> real \<Rightarrow> real) \<Rightarrow> dom \<Rightarrow> garden \<Rightarrow> garden" where
  "update noise d s =
     (let (stepped, pushed, s1) = forEachGrower noise (growers s) s;
          s2 = s1\<lparr>growers := filter keepAlive (stepped @ pushed)\<rparr>
      in if insideCanvas d \<and> insideContext d then compositeBottlePlants s2 else s2)"

section \<open>Effects of the component\<close>

text \<open>
  The effect on \<^verbatim>\<open>dimensions\<close>: both canvases take the new size (which wipes them), the
  outside canvas is filled with the paper colour, the inside canvas is cleared, and the
  growers, the history and the bottle plants are dropped.
\<close>

definition resizeCanvas :: "canvas_id \<Rightarrow> real \<times> real \<Rightarrow> garden \<Rightarrow> garden" where
  "resizeCanvas c dims s =
     s\<lparr>canvases := (canvases s)(c := \<lparr>cwidth = fst dims, cheight = snd dims, content = []\<rparr>)\<rparr>"

definition dimensionsEffect :: "dom \<Rightarrow> garden \<Rightarrow> garden" where
  "dimensionsEffect d s =
     (let dims = dimensions s;
          s1 = (if outsideCanvas d then resizeCanvas CanvasOutside dims s else s);
          s2 = (if insideCanvas d then resizeCanvas CanvasInside dims s1 else s1);
          s3 = (if outsideCanvas d \<and> outsideContext d
                then fillRect CanvasOutside ''#fdfbf7'' 0 0 (fst dims) (snd dims) s2 else s2);
          s4 = (if insideCanvas d \<and> insideContext d
                then clearRect CanvasInside 0 0 (fst dims) (snd dims) s3 else s3)
      in s4\<lparr>growers := [], plantHistory := [], bottlePlants := []\<rparr>)"

text \<open>
  The effect on \<^verbatim>\<open>clearTrigger\<close> (the clear command of the application increments the
  trigger): the outside canvas is filled, and the growers whose context is the outside
  context are dropped. When the canvas is mounted and gives no context, the growers are
  compared with \<^verbatim>\<open>null\<close>, which none of them is.
\<close>

definition clearEffect :: "dom \<Rightarrow> garden \<Rightarrow> garden" where
  "clearEffect d s =
     (let s1 = (if outsideCanvas d \<and> outsideContext d
                then fillRect CanvasOutside ''#fdfbf7'' 0 0
                       (fst (dimensions s)) (snd (dimensions s)) s
                else s)
      in if outsideCanvas d then
           (let outCtx = (if outsideContext d then Some CanvasOutside else None)
            in s1\<lparr>growers := filter (\<lambda>g. Some (g_ctx g) \<noteq> outCtx) (growers s1)\<rparr>)
         else s1)"

section \<open>Pointer events\<close>

definition hitTest :: "real \<Rightarrow> real \<Rightarrow> BottlePlant \<Rightarrow> bool" where
  "hitTest px py p \<longleftrightarrow> \<bar>px - p_currentX p\<bar> < 40 \<and> py < p_y p \<and> py > p_y p - 400"

definition handlePointerDown :: "dom \<Rightarrow> PointerEvent \<Rightarrow> garden \<Rightarrow> garden" where
  "handlePointerDown d e s =
     (if e_button e \<noteq> 0 then s
      else case containerRect d of
        None \<Rightarrow> s
      | Some rect \<Rightarrow>
          (let px = e_clientX e - r_left rect;
               py = e_clientY e - r_top rect
           in case find (hitTest px py) (bottlePlants s) of
                Some clickedPlant \<Rightarrow>
                  s\<lparr>dragState := Some \<lparr>d_plantId = p_id clickedPlant, d_startX = px,
                                       d_plantStartX = p_currentX clickedPlant\<rparr>\<rparr>
              | None \<Rightarrow> spawnPlant d px py None False s))"

text \<open>
  \<^verbatim>\<open>find\<close> returns the first plant with the identifier, and the assignment to its
  \<^verbatim>\<open>currentX\<close> changes that plant in the array: \<open>updateFound\<close> changes the first element
  that satisfies the test.
\<close>

fun updateFound :: "('a \<Rightarrow> bool) \<Rightarrow> ('a \<Rightarrow> 'a) \<Rightarrow> 'a list \<Rightarrow> 'a list" where
  "updateFound P f [] = []"
| "updateFound P f (p # ps) = (if P p then f p # ps else p # updateFound P f ps)"

definition dragX :: "DOMRect \<Rightarrow> DOMRect option \<Rightarrow> DragState \<Rightarrow> real \<Rightarrow> real" where
  "dragX rect bounds ds px =
     (let newX = d_plantStartX ds + (px - d_startX ds)
      in case bounds of
           Some bRect \<Rightarrow>
             (let bottleLeft = r_left bRect - r_left rect;
                  bottleRight = r_right bRect - r_left rect
              in max (bottleLeft + 20) (min (bottleRight - 20) newX))
         | None \<Rightarrow> newX)"

definition handlePointerMove :: "dom \<Rightarrow> PointerEvent \<Rightarrow> garden \<Rightarrow> garden" where
  "handlePointerMove d e s =
     (case containerRect d of
        None \<Rightarrow> s
      | Some rect \<Rightarrow>
          (let px = e_clientX e - r_left rect;
               py = e_clientY e - r_top rect
           in case dragState s of
                Some ds \<Rightarrow>
                  (case find (\<lambda>p. p_id p = d_plantId ds) (bottlePlants s) of
                     Some plant \<Rightarrow>
                       s\<lparr>bottlePlants :=
                           updateFound (\<lambda>p. p_id p = d_plantId ds)
                             (\<lambda>p. p\<lparr>p_currentX := dragX rect (bottleRect s) ds px\<rparr>)
                             (bottlePlants s)\<rparr>
                   | None \<Rightarrow> s)
              | None \<Rightarrow>
                  if e_buttons e = 1 then
                    (let (r, s1) = mathRandom s
                     in if r > 0.6 then spawnPlant d px py None False s1 else s1)
                  else s))"

definition handlePointerUp :: "garden \<Rightarrow> garden" where
  "handlePointerUp s = s\<lparr>dragState := None\<rparr>"

section \<open>Editing the live settings (the application)\<close>

text \<open>
  \<^verbatim>\<open>setSettings\<close> makes the live settings another object. \<^verbatim>\<open>updateSettings\<close> builds that
  object from the previous one and the fields given (\<^verbatim>\<open>{ ...prev, ...newSettings }\<close>).
\<close>

definition merge :: "PlantSettings \<Rightarrow> PartialSettings \<Rightarrow> PlantSettings" where
  "merge prev n =
     \<lparr>type = (case new_type n of Some v \<Rightarrow> v | None \<Rightarrow> type prev),
      stemColorStart = (case new_stemColorStart n of Some v \<Rightarrow> v | None \<Rightarrow> stemColorStart prev),
      stemColorEnd = (case new_stemColorEnd n of Some v \<Rightarrow> v | None \<Rightarrow> stemColorEnd prev),
      baseWidth = (case new_baseWidth n of Some v \<Rightarrow> v | None \<Rightarrow> baseWidth prev),
      growthSpeed = (case new_growthSpeed n of Some v \<Rightarrow> v | None \<Rightarrow> growthSpeed prev),
      maxLife = (case new_maxLife n of Some v \<Rightarrow> v | None \<Rightarrow> maxLife prev),
      curlFactor = (case new_curlFactor n of Some v \<Rightarrow> v | None \<Rightarrow> curlFactor prev),
      straightness = (case new_straightness n of Some v \<Rightarrow> v | None \<Rightarrow> straightness prev),
      leafColorStart = (case new_leafColorStart n of Some v \<Rightarrow> v | None \<Rightarrow> leafColorStart prev),
      leafColorEnd = (case new_leafColorEnd n of Some v \<Rightarrow> v | None \<Rightarrow> leafColorEnd prev),
      leafFrequency = (case new_leafFrequency n of Some v \<Rightarrow> v | None \<Rightarrow> leafFrequency prev),
      leafSize = (case new_leafSize n of Some v \<Rightarrow> v | None \<Rightarrow> leafSize prev),
      flowerColorStart =
        (case new_flowerColorStart n of Some v \<Rightarrow> v | None \<Rightarrow> flowerColorStart prev),
      flowerColorEnd = (case new_flowerColorEnd n of Some v \<Rightarrow> v | None \<Rightarrow> flowerColorEnd prev),
      flowerProbability =
        (case new_flowerProbability n of Some v \<Rightarrow> v | None \<Rightarrow> flowerProbability prev),
      flowerSize = (case new_flowerSize n of Some v \<Rightarrow> v | None \<Rightarrow> flowerSize prev),
      petalCount = (case new_petalCount n of Some v \<Rightarrow> v | None \<Rightarrow> petalCount prev)\<rparr>"

definition setSettings :: "settings_ref \<Rightarrow> garden \<Rightarrow> garden" where
  "setSettings r s = s\<lparr>settings := r\<rparr>"

definition updateSettings :: "PartialSettings \<Rightarrow> garden \<Rightarrow> garden" where
  "updateSettings newSettings s =
     (let (r, s1) = newObject (merge (heap s (settings s)) newSettings) s
      in setSettings r s1)"

text \<open>
  An object that comes from outside (the seed a user pastes, parsed from JSON) is a new
  object of the store.
\<close>

definition parseSeed :: "PlantSettings \<Rightarrow> garden \<Rightarrow> garden" where
  "parseSeed v s = snd (newObject v s)"

section \<open>The application from its start\<close>

definition PRESET_VINE :: PlantSettings where
  "PRESET_VINE =
     \<lparr>type = VINE,
      stemColorStart = ''#86efac'',
      stemColorEnd = ''#2dd4bf'',
      baseWidth = 6,
      growthSpeed = 3,
      maxLife = 280,
      curlFactor = 0.08,
      straightness = 0.4,
      leafColorStart = ''#bef264'',
      leafColorEnd = ''#10b981'',
      leafFrequency = 0.1,
      leafSize = 12,
      flowerColorStart = ''#fca5a5'',
      flowerColorEnd = ''#c4b5fd'',
      flowerProbability = 0.7,
      flowerSize = 20,
      petalCount = 7\<rparr>"

text \<open>
  Before the first effect runs: the refs are empty, the dimensions are 0 by 0, the live
  settings are the vine preset (the object at address 0), and a canvas has the size a
  canvas element starts with.
\<close>

definition initialGarden :: "(nat \<Rightarrow> real) \<Rightarrow> garden" where
  "initialGarden tape =
     \<lparr>heap = (\<lambda>_. PRESET_VINE),
      heapNext = 1,
      settings = 0,
      dimensions = (0, 0),
      canvases = (\<lambda>_. \<lparr>cwidth = 300, cheight = 150, content = []\<rparr>),
      canvasNext = 0,
      growers = [],
      bottlePlants = [],
      plantHistory = [],
      bottleRect = None,
      dragState = None,
      rnd = tape,
      rndPos = 0\<rparr>"

text \<open>
  A change of the dimensions (\<^verbatim>\<open>setDimensions\<close> in the resize handler) runs the two
  effects that depend on them; mounting the component runs them on the first dimensions.
\<close>

definition handleResize :: "dom \<Rightarrow> real \<times> real \<Rightarrow> garden \<Rightarrow> garden" where
  "handleResize d dims s = clearEffect d (dimensionsEffect d (s\<lparr>dimensions := dims\<rparr>))"

definition mount :: "dom \<Rightarrow> (nat \<Rightarrow> real) \<Rightarrow> garden" where
  "mount d tape = clearEffect d (dimensionsEffect d (initialGarden tape))"

text \<open>
  The states the application can be in: it is mounted, and then commands, ticks, pointer
  events, edits of the settings and resizes follow in any order. The effects run with
  both canvases mounted (their refs are set before any effect runs). A settings object
  passed to a spawn or made the live settings is an object of the store.
\<close>

definition allocated :: "garden \<Rightarrow> settings_ref \<Rightarrow> bool" where
  "allocated s r \<longleftrightarrow> r < heapNext s"

inductive reachable :: "garden \<Rightarrow> bool" where
  r_mount: "outsideCanvas d \<Longrightarrow> insideCanvas d \<Longrightarrow> reachable (mount d tape)"
| r_resize: "reachable s \<Longrightarrow> outsideCanvas d \<Longrightarrow> insideCanvas d \<Longrightarrow>
     reachable (handleResize d dims s)"
| r_clear: "reachable s \<Longrightarrow> reachable (clearEffect d s)"
| r_spawn: "reachable s \<Longrightarrow> reachable (spawnPlant d x0 y0 None b s)"
| r_spawn_with: "reachable s \<Longrightarrow> allocated s r \<Longrightarrow>
     reachable (spawnPlant d x0 y0 (Some r) b s)"
| r_undo: "reachable s \<Longrightarrow> reachable (undoLastBottlePlant s)"
| r_bounds: "reachable s \<Longrightarrow> reachable (updateBottleRect rect s)"
| r_tick: "reachable s \<Longrightarrow> reachable (update noise d s)"
| r_down: "reachable s \<Longrightarrow> reachable (handlePointerDown d e s)"
| r_move: "reachable s \<Longrightarrow> reachable (handlePointerMove d e s)"
| r_up: "reachable s \<Longrightarrow> reachable (handlePointerUp s)"
| r_edit: "reachable s \<Longrightarrow> reachable (updateSettings newSettings s)"
| r_set: "reachable s \<Longrightarrow> allocated s r \<Longrightarrow> reachable (setSettings r s)"
| r_parse: "reachable s \<Longrightarrow> reachable (parseSeed v s)"

section \<open>Vocabulary of the properties\<close>

text \<open>\<open>sameBut s s'\<close>: the state \<open>s'\<close> differs from \<open>s\<close> in the canvases and in the
  position on the random tape at most.\<close>

definition sameBut :: "garden \<Rightarrow> garden \<Rightarrow> bool" where
  "sameBut s s' \<longleftrightarrow> s' = s\<lparr>canvases := canvases s', rndPos := rndPos s'\<rparr>"

text \<open>A grower's lifetime and width are those of its settings object, scaled by its
  generation, and its generation is 0, 1 or 2.\<close>

definition scaled :: "garden \<Rightarrow> Grower \<Rightarrow> bool" where
  "scaled s g \<longleftrightarrow>
     g_generation g \<le> 2 \<and>
     g_maxLife g = maxLife (heap s (g_settings g)) / (real (g_generation g) + 1) \<and>
     g_width g = baseWidth (heap s (g_settings g)) / (real (g_generation g) + 1)"

definition offscreen :: "garden \<Rightarrow> canvas_id \<Rightarrow> bool" where
  "offscreen s c \<longleftrightarrow> (case c of OffCanvas n \<Rightarrow> n < canvasNext s | _ \<Rightarrow> False)"

definition sized :: "garden \<Rightarrow> canvas_id \<Rightarrow> bool" where
  "sized s c \<longleftrightarrow>
     cwidth (canvases s c) = fst (dimensions s) \<and> cheight (canvases s c) = snd (dimensions s)"

text \<open>
  What holds of every grower, bottle plant and history item of a reachable state: its
  settings are an object of the store; a grower is scaled and draws on the outside canvas
  or on an offscreen canvas that exists; a plant's canvas is an offscreen canvas that
  exists, and its context is that canvas's. And both page canvases have the size of the
  dimensions.
\<close>

definition growerOk :: "garden \<Rightarrow> Grower \<Rightarrow> bool" where
  "growerOk s g \<longleftrightarrow>
     allocated s (g_settings g) \<and> scaled s g \<and>
     (g_ctx g = CanvasOutside \<or> offscreen s (g_ctx g))"

definition plantOk :: "garden \<Rightarrow> BottlePlant \<Rightarrow> bool" where
  "plantOk s p \<longleftrightarrow>
     allocated s (p_settings p) \<and> offscreen s (p_canvas p) \<and> p_ctx p = p_canvas p"

definition invariant :: "garden \<Rightarrow> bool" where
  "invariant s \<longleftrightarrow>
     allocated s (settings s) \<and>
     (\<forall>g \<in> set (growers s). growerOk s g) \<and>
     (\<forall>p \<in> set (bottlePlants s). plantOk s p) \<and>
     (\<forall>h \<in> set (plantHistory s). allocated s (h_settings h)) \<and>
     sized s CanvasOutside \<and> sized s CanvasInside"

text \<open>
  \<open>extends s s'\<close>: the store and the offscreen canvases of \<open>s'\<close> are those of \<open>s\<close> and
  possibly more, the objects of \<open>s\<close> unchanged, and the dimensions and the sizes of the two
  page canvases are the same. \<open>paints P s s'\<close>: every canvas of \<open>s'\<close> has the size it has in
  \<open>s\<close>, and shows what it shows in \<open>s\<close> followed by commands that satisfy \<open>P\<close>.
\<close>

definition extends :: "garden \<Rightarrow> garden \<Rightarrow> bool" where
  "extends s s' \<longleftrightarrow>
     heapNext s \<le> heapNext s' \<and> (\<forall>r < heapNext s. heap s' r = heap s r) \<and>
     canvasNext s \<le> canvasNext s' \<and> dimensions s' = dimensions s \<and>
     cwidth (canvases s' CanvasOutside) = cwidth (canvases s CanvasOutside) \<and>
     cheight (canvases s' CanvasOutside) = cheight (canvases s CanvasOutside) \<and>
     cwidth (canvases s' CanvasInside) = cwidth (canvases s CanvasInside) \<and>
     cheight (canvases s' CanvasInside) = cheight (canvases s CanvasInside)"

definition paints :: "(draw_cmd \<Rightarrow> bool) \<Rightarrow> garden \<Rightarrow> garden \<Rightarrow> bool" where
  "paints P s s' \<longleftrightarrow>
     (\<forall>c. cwidth (canvases s' c) = cwidth (canvases s c) \<and>
          cheight (canvases s' c) = cheight (canvases s c) \<and>
          (\<exists>added. content (canvases s' c) = content (canvases s c) @ added \<and>
                    (\<forall>cmd \<in> set added. P cmd)))"

text \<open>The commands that wipe or repaint an area, and the number of flowers on a canvas.\<close>

fun isShape :: "draw_cmd \<Rightarrow> bool" where
  "isShape (Stroke _ _ _ _ _ _) = True"
| "isShape (LeafShape _ _ _ _ _ _) = True"
| "isShape (FlowerShape _ _ _ _ _ _ _ _) = True"
| "isShape _ = False"

fun isFlower :: "draw_cmd \<Rightarrow> bool" where
  "isFlower (FlowerShape _ _ _ _ _ _ _ _) = True"
| "isFlower _ = False"

definition flowerCount :: "garden \<Rightarrow> canvas_id \<Rightarrow> nat" where
  "flowerCount s c = length (filter isFlower (content (canvases s c)))"

section \<open>Example runs\<close>

text \<open>
  Small runs of the application, used to instantiate the theorems below: a page whose
  canvases are mounted and whose container sits at the left edge of the window, a tape
  of random numbers that is constantly one half (no leaf, no branch, a flower), a tape
  that is constantly one thousandth (a leaf and a branch on every growing tick), and a
  noise field that is constantly 0.
\<close>

definition demoTape :: "nat \<Rightarrow> real" where
  "demoTape = (\<lambda>_. 1 / 2)"

definition branchTape :: "nat \<Rightarrow> real" where
  "branchTape = (\<lambda>_. 1 / 1000)"

definition demoNoise :: "real \<Rightarrow> real \<Rightarrow> real \<Rightarrow> real" where
  "demoNoise = (\<lambda>_ _ _. 0)"

definition demoDom :: dom where
  "demoDom =
     \<lparr>containerRect = Some \<lparr>r_left = 0, r_top = 0, r_right = 800, r_bottom = 600\<rparr>,
      outsideCanvas = True, outsideContext = True, insideCanvas = True,
      insideContext = True, offscreenContext = True, now = 0\<rparr>"

text \<open>The garden after mounting and taking the size 800 by 600.\<close>

definition demoGardenOn :: "(nat \<Rightarrow> real) \<Rightarrow> garden" where
  "demoGardenOn tape = handleResize demoDom (800, 600) (mount demoDom tape)"

definition demoGarden :: garden where
  "demoGarden = demoGardenOn demoTape"

text \<open>One vine painted outside at (100, 100), on the branching tape.\<close>

definition demoBranching :: garden where
  "demoBranching = spawnPlant demoDom 100 100 None False (demoGardenOn branchTape)"

text \<open>
  A pasted seed whose lifetime is 0 (its stem is terminal from its first tick), planted
  in the bottle at (150, 500) as the import does: the parsed object becomes the live
  settings and is passed to the spawn. Then a vine painted outside as well.
\<close>

definition demoSeed :: PlantSettings where
  "demoSeed = PRESET_VINE\<lparr>maxLife := 0\<rparr>"

definition demoBottle :: garden where
  "demoBottle =
     spawnPlant demoDom 150 500 (Some 1) True (setSettings 1 (parseSeed demoSeed demoGarden))"

definition demoBoth :: garden where
  "demoBoth = spawnPlant demoDom 100 100 None False demoBottle"

text \<open>
  The life of the seed's grower, tick after tick: it is terminal, so a tick only counts
  its life and sets its flag.
\<close>

definition demoTrace :: "nat \<Rightarrow> Grower" where
  "demoTrace k = (hd (growers demoBottle))\<lparr>g_life := k, g_hasAttemptedFlower := (0 < k)\<rparr>"

text \<open>
  Dragging the plant in the bottle. The bottle's rectangle spans 0 to 300; the pointer
  goes down 10 to the right of the plant. The same with the container 100 to the right
  of the window's edge (every pointer position is then 100 larger for the same place on
  the canvas). The stale session: the plant is undone while it is dragged. And a page on
  which a new canvas gives no context.
\<close>

definition demoBounds :: DOMRect where
  "demoBounds = \<lparr>r_left = 0, r_top = 0, r_right = 300, r_bottom = 280\<rparr>"

definition pointerAt :: "real \<Rightarrow> real \<Rightarrow> PointerEvent" where
  "pointerAt cx cy = \<lparr>e_clientX = cx, e_clientY = cy, e_button = 0, e_buttons = 1\<rparr>"

definition demoDrag :: garden where
  "demoDrag =
     handlePointerDown demoDom (pointerAt 160 400) (updateBottleRect demoBounds demoBottle)"

definition shiftedDom :: dom where
  "shiftedDom =
     demoDom\<lparr>containerRect :=
       Some \<lparr>r_left = 100, r_top = 0, r_right = 900, r_bottom = 600\<rparr>\<rparr>"

definition shiftedDrag :: garden where
  "shiftedDrag =
     handlePointerDown shiftedDom (pointerAt 260 400) (updateBottleRect demoBounds demoBottle)"

definition demoStale :: garden where
  "demoStale = undoLastBottlePlant demoDrag"

definition failingDom :: dom where
  "failingDom = demoDom\<lparr>offscreenContext := False\<rparr>"

text \<open>
  The dragged plant after the pointer has moved to 360 (its \<^verbatim>\<open>currentX\<close> is then 280), and
  an edit of the live settings that sets the lifetime to 100.
\<close>

definition demoDragged :: garden where
  "demoDragged = handlePointerMove demoDom (pointerAt 360 400) demoDrag"

definition noChange :: PartialSettings where
  "noChange =
     \<lparr>new_type = None, new_stemColorStart = None, new_stemColorEnd = None,
      new_baseWidth = None, new_growthSpeed = None, new_maxLife = None,
      new_curlFactor = None, new_straightness = None, new_leafColorStart = None,
      new_leafColorEnd = None, new_leafFrequency = None, new_leafSize = None,
      new_flowerColorStart = None, new_flowerColorEnd = None,
      new_flowerProbability = None, new_flowerSize = None, new_petalCount = None\<rparr>"

definition demoPatch :: PartialSettings where
  "demoPatch = noChange\<lparr>new_maxLife := Some 100\<rparr>"

section \<open>Facts about single operations\<close>

lemma createGrower_fields:
  "g_generation (fst (createGrower x0 y0 r c n a s)) = n"
  "g_maxLife (fst (createGrower x0 y0 r c n a s)) = maxLife (heap s r) / (real n + 1)"
  "g_width (fst (createGrower x0 y0 r c n a s)) = baseWidth (heap s r) / (real n + 1)"
  "g_life (fst (createGrower x0 y0 r c n a s)) = 0"
  "g_settings (fst (createGrower x0 y0 r c n a s)) = r"
  "g_ctx (fst (createGrower x0 y0 r c n a s)) = c"
  "g_x (fst (createGrower x0 y0 r c n a s)) = x0"
  "g_y (fst (createGrower x0 y0 r c n a s)) = y0"
  "g_hasAttemptedFlower (fst (createGrower x0 y0 r c n a s)) = False"
  by (simp_all add: createGrower_def Let_def split: prod.splits option.splits)

text \<open>What a step leaves alone: everything but the canvases and the tape position.\<close>

lemma sameBut_refl [simp]: "sameBut s s" by (simp add: sameBut_def)
lemma sameBut_trans: "sameBut s s1 \<Longrightarrow> sameBut s1 s2 \<Longrightarrow> sameBut s s2"
  unfolding sameBut_def by (metis (no_types, lifting) garden.surjective garden.update_convs(5,13) garden.select_convs)

lemma sameBut_fields:
  assumes "sameBut s s'"
  shows "heap s' = heap s" "heapNext s' = heapNext s" "settings s' = settings s"
    "dimensions s' = dimensions s" "canvasNext s' = canvasNext s" "growers s' = growers s"
    "bottlePlants s' = bottlePlants s" "plantHistory s' = plantHistory s"
    "bottleRect s' = bottleRect s" "dragState s' = dragState s" "rnd s' = rnd s"
  using assms unfolding sameBut_def
  by (metis garden.select_convs garden.surjective garden.update_convs(5,13))+

lemma sameBut_mathRandom [simp]: "sameBut s (snd (mathRandom s))"
  by (simp add: sameBut_def mathRandom_def)

lemma sameBut_draw [simp]: "sameBut s (draw c cmd s)"
  by (simp add: sameBut_def draw_def)

lemma sameBut_createGrower [simp]: "sameBut s (snd (createGrower x0 y0 r c n a s))"
  by (simp add: sameBut_def createGrower_def uuid_def mathRandom_def Let_def split: prod.splits option.splits)

lemma sameBut_drawLeaf [simp]: "sameBut s (drawLeaf c lx ly a b col ty s)"
  by (simp add: sameBut_def drawLeaf_def draw_def mathRandom_def Let_def split: prod.splits)

lemma sameBut_drawFlower [simp]: "sameBut s (drawFlower c fx fy b c1 c2 p ty s)"
  by (simp add: sameBut_def drawFlower_def draw_def mathRandom_def Let_def split: prod.splits)

lemma sameBut_attemptFlower [simp]: "sameBut s (attemptFlower g s)"
  by (simp add: sameBut_def attemptFlower_def drawFlower_def draw_def mathRandom_def Let_def split: prod.splits)

lemma sameBut_terminalStep [simp]: "sameBut s (snd (snd (terminalStep g s)))"
  by (simp add: terminalStep_def Let_def split: prod.splits)

lemma sameBut_updateAngle [simp]: "sameBut s (snd (updateAngle noise g s))"
  by (simp add: sameBut_def updateAngle_def mathRandom_def Let_def split: prod.splits)

lemma sameBut_drawStem [simp]: "sameBut s (drawStem g nx ny s)"
  by (simp add: drawStem_def Let_def)

lemma sameBut_leafAngleOffset [simp]: "sameBut s (snd (leafAngleOffset ty s))"
  by (simp add: sameBut_def leafAngleOffset_def mathRandom_def Let_def split: prod.splits)

lemma sameBut_leafTrial [simp]: "sameBut s (leafTrial g a s)"
  by (simp add: sameBut_def leafTrial_def leafAngleOffset_def drawLeaf_def draw_def mathRandom_def Let_def split: prod.splits)

lemma sameBut_branchTrial [simp]: "sameBut s (snd (branchTrial g a s))"
  by (simp add: sameBut_def branchTrial_def createGrower_def uuid_def mathRandom_def Let_def split: prod.splits)

lemma sameBut_growStep [simp]: "sameBut s (snd (snd (growStep noise g s)))"
proof -
  obtain ang s1 where a: "updateAngle noise g s = (ang, s1)" by (cases "updateAngle noise g s")
  define nx where "nx = g_x g + cos ang * g_speed g"
  define ny where "ny = g_y g + sin ang * g_speed g"
  define s2 where "s2 = drawStem g nx ny s1"
  define s3 where "s3 = leafTrial g ang s2"
  obtain pushed s4 where b: "branchTrial g ang s3 = (pushed, s4)" by (cases "branchTrial g ang s3")
  have "sameBut s s1" using sameBut_updateAngle [of s noise g] a by simp
  moreover have "sameBut s1 s2" by (simp add: s2_def)
  moreover have "sameBut s2 s3" by (simp add: s3_def)
  moreover have "sameBut s3 s4" using sameBut_branchTrial [of s3 g ang] b by simp
  ultimately have "sameBut s s4" by (blast intro: sameBut_trans)
  moreover have "snd (snd (growStep noise g s)) = s4"
    using b unfolding s3_def s2_def nx_def ny_def by (simp add: growStep_def Let_def a)
  ultimately show ?thesis by simp
qed

lemma sameBut_stepGrower [simp]: "sameBut s (snd (snd (stepGrower noise g s)))"
  by (simp add: stepGrower_def)

lemma sameBut_forEachGrower [simp]: "sameBut s (snd (snd (forEachGrower noise gs s)))"
proof (induction gs arbitrary: s)
  case Nil
  show ?case by simp
next
  case (Cons g gs)
  obtain g' p s1 where a: "stepGrower noise g s = (g', p, s1)" by (cases "stepGrower noise g s")
  have "sameBut s s1" using sameBut_stepGrower [of s noise g] a by simp
  moreover have "sameBut s1 (snd (snd (forEachGrower noise gs s1)))" by (rule Cons.IH)
  ultimately show ?case
    by (auto simp: a Let_def split: prod.splits intro: sameBut_trans)
qed

lemma terminalStep_result:
  "fst (terminalStep g s) = g\<lparr>g_hasAttemptedFlower := True, g_life := Suc (g_life g)\<rparr>"
  "fst (snd (terminalStep g s)) = []"
  "snd (snd (terminalStep g s)) = (if g_hasAttemptedFlower g then s else attemptFlower g s)"
  by (cases g; simp add: terminalStep_def Let_def split: prod.splits)+

lemma growStep_grower:
  "\<exists>a x1 y1. fst (growStep noise g s) = g\<lparr>g_angle := a, g_x := x1, g_y := y1, g_life := Suc (g_life g)\<rparr>"
  by (simp add: growStep_def Let_def split: prod.splits) blast

lemma growStep_pushed:
  "\<exists>a s1. fst (snd (growStep noise g s)) = fst (branchTrial g a s1) \<and> sameBut s s1"
proof -
  obtain ang s1 where a: "updateAngle noise g s = (ang, s1)" by (cases "updateAngle noise g s")
  have 1: "sameBut s s1" using sameBut_updateAngle [of s noise g] a by simp
  let ?s3 = "leafTrial g ang (drawStem g (g_x g + cos ang * g_speed g) (g_y g + sin ang * g_speed g) s1)"
  have "sameBut s1 ?s3" by (blast intro: sameBut_trans sameBut_drawStem sameBut_leafTrial)
  with 1 have "sameBut s ?s3" by (blast intro: sameBut_trans)
  moreover have "fst (snd (growStep noise g s)) = fst (branchTrial g ang ?s3)"
    by (simp add: growStep_def Let_def a split: prod.splits)
  ultimately show ?thesis by blast
qed

lemma branchTrial_pushed:
  "fst (branchTrial g a s) = [] \<or>
   (g_generation g < 2 \<and> (\<exists>c. fst (branchTrial g a s) = [c] \<and>
      g_generation c = g_generation g + 1 \<and> g_settings c = g_settings g \<and> g_ctx c = g_ctx g \<and>
      g_life c = 0 \<and> \<not> g_hasAttemptedFlower c \<and> g_x c = g_x g \<and> g_y c = g_y g \<and>
      g_maxLife c = maxLife (heap s (g_settings g)) / (real (g_generation g + 1) + 1) \<and>
      g_width c = baseWidth (heap s (g_settings g)) / (real (g_generation g + 1) + 1)))"
proof (cases "g_generation g < 2 \<and> fst (mathRandom s) < branchChance (type (heap s (g_settings g)))")
  case False
  then show ?thesis by (auto simp: branchTrial_def Let_def split: prod.splits)
next
  case True
  obtain r s1 where m1: "mathRandom s = (r, s1)" by (cases "mathRandom s")
  obtain r2 s2 where m2: "mathRandom s1 = (r2, s2)" by (cases "mathRandom s1")
  have h: "heap s2 = heap s"
    using sameBut_fields(1) [OF sameBut_mathRandom, of s] sameBut_fields(1) [OF sameBut_mathRandom, of s1] m1 m2
    by simp
  let ?ba = "a + (if r2 > 0.5 then branchAngleOffset (type (heap s (g_settings g)))
                 else - branchAngleOffset (type (heap s (g_settings g))))"
  let ?c = "fst (createGrower (g_x g) (g_y g) (g_settings g) (g_ctx g) (g_generation g + 1) (Some ?ba) s2)"
  have "fst (branchTrial g a s) = [?c]"
    using True by (simp add: branchTrial_def Let_def m1 m2 split: prod.splits)
  then show ?thesis using True by (simp add: createGrower_fields h)
qed

section \<open>Facts about the tick\<close>

lemma stepGrower_static:
  "g_life (fst (stepGrower noise g s)) = Suc (g_life g)"
  "g_maxLife (fst (stepGrower noise g s)) = g_maxLife g"
  "g_width (fst (stepGrower noise g s)) = g_width g"
  "g_generation (fst (stepGrower noise g s)) = g_generation g"
  "g_settings (fst (stepGrower noise g s)) = g_settings g"
  "g_ctx (fst (stepGrower noise g s)) = g_ctx g"
  "g_hasAttemptedFlower (fst (stepGrower noise g s)) = (g_hasAttemptedFlower g \<or> isTerminal g)"
  using growStep_grower [of noise g s]
  by (auto simp: stepGrower_def terminalStep_result)

lemma stepGrower_terminal:
  "isTerminal g \<Longrightarrow>
     fst (stepGrower noise g s) = g\<lparr>g_hasAttemptedFlower := True, g_life := Suc (g_life g)\<rparr>"
  "isTerminal g \<Longrightarrow> fst (snd (stepGrower noise g s)) = []"
  "isTerminal g \<Longrightarrow>
     snd (snd (stepGrower noise g s)) = (if g_hasAttemptedFlower g then s else attemptFlower g s)"
  by (simp_all add: stepGrower_def terminalStep_result)

lemma isTerminal_step: "isTerminal g \<Longrightarrow> isTerminal (fst (stepGrower noise g s))"
  by (simp add: isTerminal_def stepGrower_static) linarith

lemma stepGrower_pushed:
  "fst (snd (stepGrower noise g s)) = [] \<or>
   (\<not> isTerminal g \<and> g_generation g < 2 \<and> (\<exists>c. fst (snd (stepGrower noise g s)) = [c] \<and>
      g_generation c = g_generation g + 1 \<and> g_settings c = g_settings g \<and> g_ctx c = g_ctx g \<and>
      g_life c = 0 \<and> \<not> g_hasAttemptedFlower c \<and>
      g_maxLife c = maxLife (heap s (g_settings g)) / (real (g_generation g + 1) + 1) \<and>
      g_width c = baseWidth (heap s (g_settings g)) / (real (g_generation g + 1) + 1)))"
proof (cases "isTerminal g")
  case True
  then show ?thesis by (simp add: stepGrower_terminal)
next
  case False
  obtain a s1 where p: "fst (snd (growStep noise g s)) = fst (branchTrial g a s1)" and sb: "sameBut s s1"
    using growStep_pushed by blast
  have h: "heap s1 = heap s" using sameBut_fields(1) [OF sb] .
  show ?thesis
    using branchTrial_pushed [of g a s1] False
    by (auto simp: stepGrower_def p h)
qed

lemma forEachGrower_Cons:
  "forEachGrower noise (g # gs) s =
     (fst (stepGrower noise g s) # fst (forEachGrower noise gs (snd (snd (stepGrower noise g s)))),
      fst (snd (stepGrower noise g s)) @ fst (snd (forEachGrower noise gs (snd (snd (stepGrower noise g s))))),
      snd (snd (forEachGrower noise gs (snd (snd (stepGrower noise g s))))))"
  by (simp add: Let_def split: prod.splits)

lemma forEachGrower_length: "length (fst (forEachGrower noise gs s)) = length gs"
  by (induction gs arbitrary: s) (simp_all add: forEachGrower_Cons del: forEachGrower.simps(2))

lemma forEachGrower_nth:
  "i < length gs \<Longrightarrow>
     \<exists>s1. sameBut s s1 \<and> fst (forEachGrower noise gs s) ! i = fst (stepGrower noise (gs ! i) s1)"
proof (induction gs arbitrary: s i)
  case Nil
  then show ?case by simp
next
  case (Cons g gs)
  obtain g' p s1 where a: "stepGrower noise g s = (g', p, s1)" by (cases "stepGrower noise g s")
  have sb: "sameBut s s1" using sameBut_stepGrower [of s noise g] a by simp
  show ?case
  proof (cases i)
    case 0
    have "fst (forEachGrower noise (g # gs) s) ! 0 = fst (stepGrower noise g s)"
      by (simp add: a Let_def split: prod.splits)
    then show ?thesis using 0 by (intro exI [of _ s]) simp
  next
    case (Suc j)
    then have "j < length gs" using Cons.prems by simp
    then obtain s2 where "sameBut s1 s2"
        and "fst (forEachGrower noise gs s1) ! j = fst (stepGrower noise (gs ! j) s2)"
      using Cons.IH by blast
    moreover have "fst (forEachGrower noise (g # gs) s) ! i = fst (forEachGrower noise gs s1) ! j"
      by (simp add: a Suc Let_def split: prod.splits)
    ultimately show ?thesis using sb Suc by (auto intro: sameBut_trans)
  qed
qed

lemma forEachGrower_pushed:
  "c \<in> set (fst (snd (forEachGrower noise gs s))) \<Longrightarrow>
     \<exists>g \<in> set gs. \<exists>s1. sameBut s s1 \<and> c \<in> set (fst (snd (stepGrower noise g s1)))"
proof (induction gs arbitrary: s)
  case Nil
  then show ?case by simp
next
  case (Cons g gs)
  obtain g' p s1 where a: "stepGrower noise g s = (g', p, s1)" by (cases "stepGrower noise g s")
  have sb: "sameBut s s1" using sameBut_stepGrower [of s noise g] a by simp
  have "fst (snd (forEachGrower noise (g # gs) s)) = p @ fst (snd (forEachGrower noise gs s1))"
    by (simp add: a Let_def split: prod.splits)
  with Cons.prems consider "c \<in> set p" | "c \<in> set (fst (snd (forEachGrower noise gs s1)))" by auto
  then show ?case
  proof cases
    case 1
    then have "c \<in> set (fst (snd (stepGrower noise g s)))" by (simp add: a)
    then show ?thesis using sameBut_refl by (metis list.set_intros(1))
  next
    case 2
    then obtain h s2 where "h \<in> set gs" "sameBut s1 s2" "c \<in> set (fst (snd (stepGrower noise h s2)))"
      using Cons.IH by blast
    then show ?thesis using sb by (metis sameBut_trans list.set_intros(2))
  qed
qed

lemma sameBut_clearRect [simp]: "sameBut s (clearRect c rx ry rw rh s)"
  by (simp add: clearRect_def sameBut_def draw_def)

lemma sameBut_fillRect [simp]: "sameBut s (fillRect c col rx ry rw rh s)"
  by (simp add: fillRect_def sameBut_def draw_def)

lemma sameBut_fold_draw:
  "sameBut s s0 \<Longrightarrow> sameBut s (fold (\<lambda>p s'. draw c (f p s') s') ps s0)"
proof (induction ps arbitrary: s0)
  case Nil
  then show ?case by simp
next
  case (Cons p ps)
  have "sameBut s (draw c (f p s0) s0)"
    using Cons.prems sameBut_draw by (rule sameBut_trans)
  then show ?case using Cons.IH by simp
qed

lemma sameBut_composite [simp]: "sameBut s (compositeBottlePlants s)"
  unfolding compositeBottlePlants_def by (rule sameBut_fold_draw) simp

lemma sameBut_growers_upd: "sameBut s s1 \<Longrightarrow> bottlePlants (s1\<lparr>growers := gs\<rparr>) = bottlePlants s"
  by (simp add: sameBut_fields)

lemma update_growers:
  "growers (update noise d s) =
     filter keepAlive (fst (forEachGrower noise (growers s) s) @ fst (snd (forEachGrower noise (growers s) s)))"
proof -
  obtain st pu s1 where a: "forEachGrower noise (growers s) s = (st, pu, s1)"
    by (cases "forEachGrower noise (growers s) s")
  have "growers (compositeBottlePlants (s1\<lparr>growers := filter keepAlive (st @ pu)\<rparr>)) = filter keepAlive (st @ pu)"
    using sameBut_fields(6) [OF sameBut_composite] by simp
  then show ?thesis by (simp add: update_def a Let_def)
qed

lemma undo_growers:
  "bottlePlants s \<noteq> [] \<Longrightarrow>
     growers (undoLastBottlePlant s) =
       filter (\<lambda>u. g_ctx u \<noteq> p_ctx (last (bottlePlants s))) (growers s)"
  by (cases "bottlePlants s" rule: rev_cases) (simp_all add: undoLastBottlePlant_def)

section \<open>Facts about the pointer handlers, the spawn and the clear effect\<close>

lemma find_split:
  "find P xs = Some x \<Longrightarrow>
     \<exists>pre post. xs = pre @ x # post \<and> (\<forall>y \<in> set pre. \<not> P y) \<and> P x \<and>
       updateFound P f xs = pre @ f x # post"
proof (induction xs)
  case Nil
  then show ?case by simp
next
  case (Cons y ys)
  show ?case
  proof (cases "P y")
    case True
    with Cons.prems have "y = x" by simp
    with True show ?thesis by (intro exI [of _ "[]"] exI [of _ ys]) simp
  next
    case False
    with Cons.prems have "find P ys = Some x" by simp
    then obtain pre post where "ys = pre @ x # post" "\<forall>y \<in> set pre. \<not> P y" "P x"
        "updateFound P f ys = pre @ f x # post"
      using Cons.IH by blast
    with False show ?thesis by (intro exI [of _ "y # pre"] exI [of _ post]) simp
  qed
qed

lemma handlePointerMove_drag:
  assumes "containerRect d = Some rect" "dragState s = Some ds"
    and "find (\<lambda>p. p_id p = d_plantId ds) (bottlePlants s) = Some plant"
  shows "handlePointerMove d e s =
     s\<lparr>bottlePlants := updateFound (\<lambda>p. p_id p = d_plantId ds)
          (\<lambda>p. p\<lparr>p_currentX := dragX rect (bottleRect s) ds (e_clientX e - r_left rect)\<rparr>)
          (bottlePlants s)\<rparr>"
  using assms by (simp add: handlePointerMove_def Let_def)

lemma handlePointerMove_stale:
  assumes "dragState s = Some ds"
    and "find (\<lambda>p. p_id p = d_plantId ds) (bottlePlants s) = None"
  shows "handlePointerMove d e s = s"
  using assms by (simp add: handlePointerMove_def Let_def split: option.splits)

lemma spawnPlant_failed:
  assumes "\<not> offscreenContext d"
  shows "spawnPlant d x0 y0 ov True s =
     s\<lparr>heap := (heap s)(heapNext s := heap s (case ov of Some r \<Rightarrow> r | None \<Rightarrow> settings s)),
       heapNext := Suc (heapNext s),
       plantHistory := pushHistory
          \<lparr>h_x = x0, h_y = y0, h_settings = heapNext s, h_timestamp = now d\<rparr> (plantHistory s)\<rparr>"
  using assms by (simp add: spawnPlant_def newObject_def Let_def)

lemma clearEffect_ready:
  assumes "outsideCanvas d" "outsideContext d"
  shows "clearEffect d s =
     (fillRect CanvasOutside ''#fdfbf7'' 0 0 (fst (dimensions s)) (snd (dimensions s)) s)
       \<lparr>growers := filter (\<lambda>g. g_ctx g \<noteq> CanvasOutside) (growers s)\<rparr>"
  using assms sameBut_fields(6) [OF sameBut_fillRect]
  by (simp add: clearEffect_def Let_def)

lemma fillRect_canvases:
  "c' \<noteq> c \<Longrightarrow> canvases (fillRect c col rx ry rw rh s) c' = canvases s c'"
  "covers rx ry rw rh (canvases s c) \<Longrightarrow>
     content (canvases (fillRect c col rx ry rw rh s) c) = [FillRect (Solid col) rx ry rw rh]"
  "cwidth (canvases (fillRect c col rx ry rw rh s) c') = cwidth (canvases s c')"
  "cheight (canvases (fillRect c col rx ry rw rh s) c') = cheight (canvases s c')"
  by (simp_all add: fillRect_def draw_def)

lemma clearRect_canvases:
  "c' \<noteq> c \<Longrightarrow> canvases (clearRect c rx ry rw rh s) c' = canvases s c'"
  "covers rx ry rw rh (canvases s c) \<Longrightarrow> content (canvases (clearRect c rx ry rw rh s) c) = []"
  "cwidth (canvases (clearRect c rx ry rw rh s) c') = cwidth (canvases s c')"
  "cheight (canvases (clearRect c rx ry rw rh s) c') = cheight (canvases s c')"
  by (simp_all add: clearRect_def draw_def)

lemma sized_covers:
  "sized s c \<Longrightarrow> covers 0 0 (fst (dimensions s)) (snd (dimensions s)) (canvases s c)"
  by (simp add: sized_def covers_def)

section \<open>Facts about flowers\<close>

lemma flowerCount_draw:
  "flowerCount (draw c cmd s) c' = flowerCount s c' + (if c' = c \<and> isFlower cmd then 1 else 0)"
  by (simp add: flowerCount_def draw_def)

lemma flowerCount_cong: "canvases s' = canvases s \<Longrightarrow> flowerCount s' c = flowerCount s c"
  by (simp add: flowerCount_def)

lemma canvases_mathRandom: "canvases (snd (mathRandom s)) = canvases s"
  by (simp add: mathRandom_def)

lemma canvases_createGrower: "canvases (snd (createGrower x0 y0 r c n a s)) = canvases s"
  by (simp add: createGrower_def uuid_def mathRandom_def Let_def split: prod.splits option.splits)

lemma canvases_updateAngle: "canvases (snd (updateAngle noise g s)) = canvases s"
  by (simp add: updateAngle_def mathRandom_def Let_def split: prod.splits)

lemma canvases_branchTrial: "canvases (snd (branchTrial g a s)) = canvases s"
  by (simp add: branchTrial_def createGrower_def uuid_def mathRandom_def Let_def split: prod.splits)

lemma flowerCount_drawFlower:
  "flowerCount (drawFlower ctx fx fy b c1 c2 p ty s) c =
     flowerCount s c + (if c = ctx then 1 else 0)"
  by (simp add: drawFlower_def flowerCount_def draw_def mathRandom_def Let_def split: prod.splits)

lemma flowerCount_attemptFlower:
  "flowerCount (attemptFlower g s) c =
     flowerCount s c +
       (if c = g_ctx g \<and> g_generation g < 2 \<and>
           rnd s (rndPos s) < flowerProbability (heap s (g_settings g)) then 1 else 0)"
proof -
  have m: "mathRandom s = (rnd s (rndPos s), s\<lparr>rndPos := Suc (rndPos s)\<rparr>)"
    by (simp add: mathRandom_def)
  have f: "flowerCount (s\<lparr>rndPos := Suc (rndPos s)\<rparr>) c' = flowerCount s c'" for c'
    by (simp add: flowerCount_def)
  show ?thesis
    by (simp add: attemptFlower_def Let_def m flowerCount_drawFlower f)
qed

lemma flowerCount_drawStem: "flowerCount (drawStem g nx ny s) c = flowerCount s c"
  by (simp add: drawStem_def Let_def flowerCount_draw)

lemma flowerCount_drawLeaf: "flowerCount (drawLeaf ctx lx ly a b col ty s) c = flowerCount s c"
  by (simp add: drawLeaf_def flowerCount_def draw_def mathRandom_def Let_def split: prod.splits)

lemma flowerCount_leafTrial: "flowerCount (leafTrial g a s) c = flowerCount s c"
proof -
  have 1: "flowerCount (snd (mathRandom s)) c = flowerCount s c" for s
    by (simp add: flowerCount_def mathRandom_def)
  have 2: "flowerCount (snd (leafAngleOffset ty s)) c = flowerCount s c" for ty s
    by (simp add: flowerCount_def leafAngleOffset_def mathRandom_def Let_def split: prod.splits)
  obtain r s1 where m: "mathRandom s = (r, s1)" by (cases "mathRandom s")
  obtain off s2 where l: "leafAngleOffset (type (heap s (g_settings g))) s1 = (off, s2)"
    by (cases "leafAngleOffset (type (heap s (g_settings g))) s1")
  have "flowerCount s1 c = flowerCount s c" using 1 [of s] m by simp
  moreover have "flowerCount s2 c = flowerCount s1 c"
    using 2 [of "type (heap s (g_settings g))" s1] l by simp
  ultimately show ?thesis
    by (simp add: leafTrial_def Let_def m l flowerCount_drawLeaf)
qed

lemma flowerCount_growStep: "flowerCount (snd (snd (growStep noise g s))) c = flowerCount s c"
proof -
  obtain ang s1 where a: "updateAngle noise g s = (ang, s1)" by (cases "updateAngle noise g s")
  let ?s3 = "leafTrial g ang (drawStem g (g_x g + cos ang * g_speed g) (g_y g + sin ang * g_speed g) s1)"
  obtain pushed s4 where b: "branchTrial g ang ?s3 = (pushed, s4)" by (cases "branchTrial g ang ?s3")
  have "flowerCount s1 c = flowerCount s c"
    using flowerCount_cong [OF canvases_updateAngle, of noise g s c] a by simp
  moreover have "flowerCount ?s3 c = flowerCount s1 c"
    by (simp add: flowerCount_leafTrial flowerCount_drawStem)
  moreover have "flowerCount s4 c = flowerCount ?s3 c"
    using flowerCount_cong [OF canvases_branchTrial, of g ang ?s3 c] b by simp
  moreover have "snd (snd (growStep noise g s)) = s4"
    by (simp add: growStep_def Let_def a b)
  ultimately show ?thesis by simp
qed

lemma flowerCount_stepGrower:
  "flowerCount (snd (snd (stepGrower noise g s))) c =
     flowerCount s c +
       (if c = g_ctx g \<and> isTerminal g \<and> \<not> g_hasAttemptedFlower g \<and> g_generation g < 2 \<and>
           rnd s (rndPos s) < flowerProbability (heap s (g_settings g)) then 1 else 0)"
  by (simp add: stepGrower_def terminalStep_result flowerCount_attemptFlower flowerCount_growStep)

lemma stepGrower_done:
  "isTerminal g \<Longrightarrow> g_hasAttemptedFlower g \<Longrightarrow>
     stepGrower noise g s = (g\<lparr>g_life := Suc (g_life g)\<rparr>, [], s)"
  by (cases g) (simp add: stepGrower_def terminalStep_def)

section \<open>What a tick paints\<close>

lemma paints_refl [simp]: "paints P s s"
  by (simp add: paints_def)

lemma paints_same: "canvases s' = canvases s \<Longrightarrow> paints P s s'"
  by (simp add: paints_def)

lemma paints_trans: "paints P s s1 \<Longrightarrow> paints P s1 s2 \<Longrightarrow> paints P s s2"
  unfolding paints_def
proof (intro allI conjI)
  fix c
  assume a: "\<forall>c. cwidth (canvases s1 c) = cwidth (canvases s c) \<and>
          cheight (canvases s1 c) = cheight (canvases s c) \<and>
          (\<exists>added. content (canvases s1 c) = content (canvases s c) @ added \<and> (\<forall>cmd \<in> set added. P cmd))"
    and b: "\<forall>c. cwidth (canvases s2 c) = cwidth (canvases s1 c) \<and>
          cheight (canvases s2 c) = cheight (canvases s1 c) \<and>
          (\<exists>added. content (canvases s2 c) = content (canvases s1 c) @ added \<and> (\<forall>cmd \<in> set added. P cmd))"
  show "cwidth (canvases s2 c) = cwidth (canvases s c)" using a b by simp
  show "cheight (canvases s2 c) = cheight (canvases s c)" using a b by simp
  obtain x where x: "content (canvases s1 c) = content (canvases s c) @ x" "\<forall>cmd \<in> set x. P cmd"
    using a by blast
  obtain y where y: "content (canvases s2 c) = content (canvases s1 c) @ y" "\<forall>cmd \<in> set y. P cmd"
    using b by blast
  show "\<exists>added. content (canvases s2 c) = content (canvases s c) @ added \<and> (\<forall>cmd \<in> set added. P cmd)"
    using x y by (intro exI [of _ "x @ y"]) auto
qed

lemma paints_draw: "P cmd \<Longrightarrow> paints P s (draw c cmd s)"
  by (simp add: paints_def draw_def)

lemma paints_mathRandom [simp]: "paints P s (snd (mathRandom s))"
  by (simp add: paints_same mathRandom_def)

lemma paints_createGrower [simp]: "paints P s (snd (createGrower x0 y0 r c n a s))"
  by (rule paints_same)
     (simp add: createGrower_def uuid_def mathRandom_def Let_def split: prod.splits option.splits)

lemma paints_drawFlower: "paints isShape s (drawFlower ctx fx fy b c1 c2 p ty s)"
  by (simp add: paints_def drawFlower_def draw_def mathRandom_def Let_def split: prod.splits)

lemma paints_attemptFlower: "paints isShape s (attemptFlower g s)"
proof -
  obtain r s1 where m: "mathRandom s = (r, s1)" by (cases "mathRandom s")
  have p1: "paints isShape s s1" using paints_mathRandom [of isShape s] m by simp
  have p2: "paints isShape s (drawFlower ctx fx fy b c1 c2 p ty s1)" for ctx fx fy b c1 c2 p ty
    using p1 paints_drawFlower by (rule paints_trans)
  show ?thesis by (simp add: attemptFlower_def Let_def m p1 p2)
qed

lemma paints_terminalStep: "paints isShape s (snd (snd (terminalStep g s)))"
  by (simp add: terminalStep_result paints_attemptFlower)

lemma paints_updateAngle [simp]: "paints P s (snd (updateAngle noise g s))"
  by (rule paints_same) (simp add: updateAngle_def mathRandom_def Let_def split: prod.splits)

lemma paints_branchTrial [simp]: "paints P s (snd (branchTrial g a s))"
  by (rule paints_same)
     (simp add: branchTrial_def createGrower_def uuid_def mathRandom_def Let_def split: prod.splits)

lemma paints_drawStem: "paints isShape s (drawStem g nx ny s)"
  by (simp add: drawStem_def Let_def paints_draw)

lemma paints_leafTrial: "paints isShape s (leafTrial g a s)"
  by (simp add: paints_def leafTrial_def leafAngleOffset_def drawLeaf_def draw_def mathRandom_def
        Let_def split: prod.splits)

lemma paints_growStep: "paints isShape s (snd (snd (growStep noise g s)))"
proof -
  obtain ang s1 where a: "updateAngle noise g s = (ang, s1)" by (cases "updateAngle noise g s")
  let ?s2 = "drawStem g (g_x g + cos ang * g_speed g) (g_y g + sin ang * g_speed g) s1"
  let ?s3 = "leafTrial g ang ?s2"
  obtain pushed s4 where b: "branchTrial g ang ?s3 = (pushed, s4)" by (cases "branchTrial g ang ?s3")
  have "paints isShape s s1" using paints_updateAngle [of isShape s noise g] a by simp
  moreover have "paints isShape s1 ?s2" by (rule paints_drawStem)
  moreover have "paints isShape ?s2 ?s3" by (rule paints_leafTrial)
  moreover have "paints isShape ?s3 s4" using paints_branchTrial [of isShape ?s3 g ang] b by simp
  ultimately have "paints isShape s s4" by (blast intro: paints_trans)
  moreover have "snd (snd (growStep noise g s)) = s4"
    by (simp add: growStep_def Let_def a b)
  ultimately show ?thesis by simp
qed

lemma paints_stepGrower: "paints isShape s (snd (snd (stepGrower noise g s)))"
  by (simp add: stepGrower_def paints_terminalStep paints_growStep)

lemma paints_forEachGrower: "paints isShape s (snd (snd (forEachGrower noise gs s)))"
proof (induction gs arbitrary: s)
  case Nil
  show ?case by simp
next
  case (Cons g gs)
  have "paints isShape s (snd (snd (stepGrower noise g s)))" by (rule paints_stepGrower)
  moreover have "paints isShape (snd (snd (stepGrower noise g s)))
      (snd (snd (forEachGrower noise gs (snd (snd (stepGrower noise g s))))))"
    by (rule Cons.IH)
  ultimately show ?case
    unfolding forEachGrower_Cons by (auto intro: paints_trans)
qed

section \<open>The invariant of the reachable states\<close>

lemma extends_refl [simp]: "extends s s"
  by (simp add: extends_def)

lemma extends_trans: "extends s s1 \<Longrightarrow> extends s1 s2 \<Longrightarrow> extends s s2"
  unfolding extends_def by (metis order_less_le_trans order_trans)

lemma sameBut_extends: "sameBut s s' \<Longrightarrow> paints P s s' \<Longrightarrow> extends s s'"
  using sameBut_fields [of s s'] by (simp add: extends_def paints_def)

lemma allocated_extends: "extends s s' \<Longrightarrow> allocated s r \<Longrightarrow> allocated s' r"
  by (simp add: extends_def allocated_def)

lemma offscreen_extends: "extends s s' \<Longrightarrow> offscreen s c \<Longrightarrow> offscreen s' c"
  by (cases c) (simp_all add: extends_def offscreen_def)

lemma growerOk_extends: "extends s s' \<Longrightarrow> growerOk s g \<Longrightarrow> growerOk s' g"
proof -
  assume e: "extends s s'" and g: "growerOk s g"
  then have "heap s' (g_settings g) = heap s (g_settings g)"
    by (simp add: extends_def growerOk_def allocated_def)
  then show ?thesis
    using e g offscreen_extends [OF e] allocated_extends [OF e]
    by (auto simp: growerOk_def scaled_def)
qed

lemma plantOk_extends: "extends s s' \<Longrightarrow> plantOk s p \<Longrightarrow> plantOk s' p"
  using offscreen_extends allocated_extends by (auto simp: plantOk_def)

lemma sized_extends:
  "extends s s' \<Longrightarrow> sized s CanvasOutside \<Longrightarrow> sized s' CanvasOutside"
  "extends s s' \<Longrightarrow> sized s CanvasInside \<Longrightarrow> sized s' CanvasInside"
  by (simp_all add: extends_def sized_def)

lemma invariant_transfer:
  assumes "invariant s" and "extends s s'" and "allocated s' (settings s')"
    and "\<forall>g \<in> set (growers s'). g \<in> set (growers s) \<or> growerOk s' g"
    and "\<forall>p \<in> set (bottlePlants s'). p \<in> set (bottlePlants s) \<or> plantOk s' p"
    and "\<forall>h \<in> set (plantHistory s'). h \<in> set (plantHistory s) \<or> allocated s' (h_settings h)"
  shows "invariant s'"
proof -
  have g: "\<forall>g \<in> set (growers s'). growerOk s' g"
    using assms(1,4) growerOk_extends [OF assms(2)] by (auto simp: invariant_def)
  have p: "\<forall>p \<in> set (bottlePlants s'). plantOk s' p"
    using assms(1,5) plantOk_extends [OF assms(2)] by (auto simp: invariant_def)
  have h: "\<forall>h \<in> set (plantHistory s'). allocated s' (h_settings h)"
    using assms(1,6) allocated_extends [OF assms(2)] by (auto simp: invariant_def)
  have z: "sized s' CanvasOutside" "sized s' CanvasInside"
    using assms(1) sized_extends [OF assms(2)] by (auto simp: invariant_def)
  show ?thesis using assms(3) g p h z by (simp add: invariant_def)
qed

lemma invariant_updateBottleRect:
  assumes i: "invariant s"
  shows "invariant (updateBottleRect rect s)"
  unfolding updateBottleRect_def
  by (rule invariant_transfer [OF i]) (use i in \<open>auto simp: extends_def invariant_def allocated_def\<close>)

lemma invariant_handlePointerUp:
  assumes i: "invariant s"
  shows "invariant (handlePointerUp s)"
  unfolding handlePointerUp_def
  by (rule invariant_transfer [OF i]) (use i in \<open>auto simp: extends_def invariant_def allocated_def\<close>)

lemma invariant_setSettings:
  assumes i: "invariant s" and a: "allocated s r"
  shows "invariant (setSettings r s)"
  unfolding setSettings_def
  by (rule invariant_transfer [OF i]) (use a in \<open>auto simp: extends_def allocated_def\<close>)

lemma extends_newObject: "extends s (snd (newObject v s))"
  by (simp add: extends_def newObject_def)

lemma newObject_fields:
  "fst (newObject v s) = heapNext s"
  "heapNext (snd (newObject v s)) = Suc (heapNext s)"
  "settings (snd (newObject v s)) = settings s"
  "growers (snd (newObject v s)) = growers s"
  "bottlePlants (snd (newObject v s)) = bottlePlants s"
  "plantHistory (snd (newObject v s)) = plantHistory s"
  "heap (snd (newObject v s)) = (heap s)(heapNext s := v)"
  by (simp_all add: newObject_def)

lemma invariant_parseSeed: "invariant s \<Longrightarrow> invariant (parseSeed v s)"
  unfolding parseSeed_def
  by (rule invariant_transfer [OF _ extends_newObject])
     (simp_all add: newObject_fields invariant_def allocated_def)

lemma invariant_updateSettings: "invariant s \<Longrightarrow> invariant (updateSettings n s)"
proof -
  assume i: "invariant s"
  let ?v = "merge (heap s (settings s)) n"
  have u: "updateSettings n s = setSettings (heapNext s) (snd (newObject ?v s))"
    by (simp add: updateSettings_def newObject_def)
  have "invariant (snd (newObject ?v s))"
    using invariant_parseSeed [OF i, of ?v] by (simp add: parseSeed_def)
  moreover have "allocated (snd (newObject ?v s)) (heapNext s)"
    by (simp add: allocated_def newObject_fields)
  ultimately show ?thesis unfolding u by (rule invariant_setSettings)
qed

lemma invariant_undo: "invariant s \<Longrightarrow> invariant (undoLastBottlePlant s)"
proof (cases "bottlePlants s" rule: rev_cases)
  case Nil
  assume "invariant s"
  then show ?thesis using Nil by (simp add: undoLastBottlePlant_def)
next
  case (snoc ps p)
  assume i: "invariant s"
  let ?s' = "s\<lparr>bottlePlants := ps, growers := filter (\<lambda>g. g_ctx g \<noteq> p_ctx p) (growers s)\<rparr>"
  have u: "undoLastBottlePlant s = ?s'" using snoc by (simp add: undoLastBottlePlant_def)
  have "invariant ?s'"
    by (rule invariant_transfer [OF i])
       (use i snoc in \<open>auto simp: extends_def invariant_def allocated_def\<close>)
  then show ?thesis by (simp add: u)
qed

lemma set_pushHistory: "h' \<in> set (pushHistory h hs) \<Longrightarrow> h' = h \<or> h' \<in> set hs"
  by (cases hs) (auto simp: pushHistory_def Let_def dest: list.set_sel(2) split: if_splits)

lemma invariant_spawnPlant:
  assumes i: "invariant s"
    and a: "allocated s (case ov of Some r \<Rightarrow> r | None \<Rightarrow> settings s)"
  shows "invariant (spawnPlant d x0 y0 ov b s)"
  by (rule invariant_transfer [OF i])
     (use i a in \<open>auto simp: spawnPlant_def newObject_def createGrower_def uuid_def
        mathRandom_def Let_def extends_def allocated_def growerOk_def plantOk_def scaled_def
        offscreen_def invariant_def dest!: set_pushHistory split: prod.splits option.splits\<close>)

lemma invariant_clearEffect:
  assumes i: "invariant s"
  shows "invariant (clearEffect d s)"
  by (rule invariant_transfer [OF i])
     (use i in \<open>auto simp: clearEffect_def fillRect_def draw_def Let_def extends_def
        allocated_def invariant_def\<close>)

lemma invariant_dimensionsEffect:
  assumes "outsideCanvas d" and "insideCanvas d" and "allocated s (settings s)"
  shows "invariant (dimensionsEffect d s)"
  using assms
  by (simp add: dimensionsEffect_def resizeCanvas_def fillRect_def clearRect_def draw_def Let_def
        invariant_def allocated_def sized_def)

lemma invariant_mount: "outsideCanvas d \<Longrightarrow> insideCanvas d \<Longrightarrow> invariant (mount d tape)"
  unfolding mount_def
  by (rule invariant_clearEffect, rule invariant_dimensionsEffect)
     (simp_all add: initialGarden_def allocated_def)

lemma invariant_handleResize:
  "invariant s \<Longrightarrow> outsideCanvas d \<Longrightarrow> insideCanvas d \<Longrightarrow> invariant (handleResize d dims s)"
  unfolding handleResize_def
  by (rule invariant_clearEffect, rule invariant_dimensionsEffect)
     (simp_all add: invariant_def allocated_def)

lemma invariant_handlePointerDown:
  assumes i: "invariant s"
  shows "invariant (handlePointerDown d e s)"
proof -
  have sp: "invariant (spawnPlant d px py None False s)" for px py
    using i by (intro invariant_spawnPlant) (simp_all add: invariant_def)
  have dr: "invariant (s\<lparr>dragState := ds\<rparr>)" for ds
    by (rule invariant_transfer [OF i]) (use i in \<open>auto simp: extends_def invariant_def allocated_def\<close>)
  show ?thesis
    using i sp dr by (simp add: handlePointerDown_def Let_def split: option.splits)
qed

lemma set_updateFound: "q \<in> set (updateFound P f ps) \<Longrightarrow> q \<in> set ps \<or> (\<exists>p \<in> set ps. q = f p)"
  by (induction ps) (auto split: if_splits)

lemma invariant_handlePointerMove:
  assumes i: "invariant s"
  shows "invariant (handlePointerMove d e s)"
proof -
  have sp: "invariant (spawnPlant d px py None False (snd (mathRandom s)))" for px py
  proof -
    have "invariant (snd (mathRandom s))"
      unfolding mathRandom_def
      by (simp, rule invariant_transfer [OF i])
         (use i in \<open>auto simp: extends_def invariant_def allocated_def\<close>)
    then show ?thesis by (intro invariant_spawnPlant) (simp_all add: invariant_def)
  qed
  have mr: "invariant (snd (mathRandom s))"
    unfolding mathRandom_def
    by (simp, rule invariant_transfer [OF i])
       (use i in \<open>auto simp: extends_def invariant_def allocated_def\<close>)
  have mv: "invariant (s\<lparr>bottlePlants := updateFound P (\<lambda>p. p\<lparr>p_currentX := nx\<rparr>) (bottlePlants s)\<rparr>)"
    for P nx
  proof (rule invariant_transfer [OF i])
    show "\<forall>p\<in>set (bottlePlants (s\<lparr>bottlePlants := updateFound P (\<lambda>p. p\<lparr>p_currentX := nx\<rparr>) (bottlePlants s)\<rparr>)).
       p \<in> set (bottlePlants s) \<or>
       plantOk (s\<lparr>bottlePlants := updateFound P (\<lambda>p. p\<lparr>p_currentX := nx\<rparr>) (bottlePlants s)\<rparr>) p"
      using i by (auto simp: invariant_def plantOk_def allocated_def offscreen_def
            dest!: set_updateFound split: canvas_id.splits)
  qed (use i in \<open>auto simp: extends_def invariant_def allocated_def\<close>)
  show ?thesis
    using i sp mr mv
    by (auto simp: handlePointerMove_def Let_def split: option.splits prod.splits)
qed

lemma forEachGrower_stepped:
  assumes "g' \<in> set (fst (forEachGrower noise gs s))"
  shows "\<exists>g \<in> set gs. \<exists>s1. sameBut s s1 \<and> g' = fst (stepGrower noise g s1)"
proof -
  obtain i where i: "i < length gs" and g': "g' = fst (forEachGrower noise gs s) ! i"
    using assms by (auto simp: in_set_conv_nth forEachGrower_length)
  obtain s1 where "sameBut s s1" "fst (forEachGrower noise gs s) ! i = fst (stepGrower noise (gs ! i) s1)"
    using forEachGrower_nth [OF i] by blast
  then show ?thesis using i g' by (intro bexI [of _ "gs ! i"]) auto
qed

lemma growerOk_step:
  assumes "growerOk s g" and "sameBut s s1"
  shows "growerOk s (fst (stepGrower noise g s1))"
  using assms by (simp add: growerOk_def scaled_def stepGrower_static)

lemma growerOk_pushed:
  assumes ok: "growerOk s g" and sb: "sameBut s s1"
    and c: "c \<in> set (fst (snd (stepGrower noise g s1)))"
  shows "growerOk s c"
proof -
  have h: "heap s1 = heap s" by (rule sameBut_fields(1) [OF sb])
  from c stepGrower_pushed [of noise g s1]
  have f: "g_generation g < 2" "g_generation c = g_generation g + 1" "g_settings c = g_settings g"
      "g_ctx c = g_ctx g"
      "g_maxLife c = maxLife (heap s1 (g_settings g)) / (real (g_generation g + 1) + 1)"
      "g_width c = baseWidth (heap s1 (g_settings g)) / (real (g_generation g + 1) + 1)"
    by auto
  show ?thesis using ok f by (simp add: growerOk_def scaled_def h)
qed

lemma composite_fold_size:
  "cwidth (canvases (fold (\<lambda>p s'. draw c (f p s') s') ps s0) c') = cwidth (canvases s0 c') \<and>
   cheight (canvases (fold (\<lambda>p s'. draw c (f p s') s') ps s0) c') = cheight (canvases s0 c')"
  by (induction ps arbitrary: s0) (simp_all add: draw_def)

lemma composite_size:
  "cwidth (canvases (compositeBottlePlants s) c) = cwidth (canvases s c)"
  "cheight (canvases (compositeBottlePlants s) c) = cheight (canvases s c)"
  unfolding compositeBottlePlants_def
  by (simp_all add: composite_fold_size clearRect_canvases)

lemma extends_composite: "extends s (compositeBottlePlants s)"
  using sameBut_fields [OF sameBut_composite [of s]]
  by (simp add: extends_def composite_size)

lemma update_unfold:
  "update noise d s =
     (if insideCanvas d \<and> insideContext d
      then compositeBottlePlants
             ((snd (snd (forEachGrower noise (growers s) s)))\<lparr>growers := growers (update noise d s)\<rparr>)
      else (snd (snd (forEachGrower noise (growers s) s)))\<lparr>growers := growers (update noise d s)\<rparr>)"
proof -
  obtain st pu s1 where a: "forEachGrower noise (growers s) s = (st, pu, s1)"
    by (cases "forEachGrower noise (growers s) s")
  have g: "growers (update noise d s) = filter keepAlive (st @ pu)"
    by (simp add: update_growers a)
  show ?thesis unfolding g by (simp add: update_def a Let_def)
qed

lemma extends_growers_upd: "extends s s1 \<Longrightarrow> extends s (s1\<lparr>growers := gs\<rparr>)"
  by (simp add: extends_def)

lemma extends_update: "extends s (update noise d s)"
proof -
  let ?s1 = "snd (snd (forEachGrower noise (growers s) s))"
  let ?s2 = "?s1\<lparr>growers := growers (update noise d s)\<rparr>"
  have "extends s ?s1"
    using sameBut_forEachGrower paints_forEachGrower by (rule sameBut_extends)
  then have e2: "extends s ?s2" by (rule extends_growers_upd)
  have "extends s (compositeBottlePlants ?s2)"
    using e2 extends_composite by (rule extends_trans)
  with e2 show ?thesis by (subst update_unfold) simp
qed

lemma update_fields:
  "settings (update noise d s) = settings s"
  "bottlePlants (update noise d s) = bottlePlants s"
  "plantHistory (update noise d s) = plantHistory s"
  "heap (update noise d s) = heap s"
  "heapNext (update noise d s) = heapNext s"
  "dimensions (update noise d s) = dimensions s"
  "canvasNext (update noise d s) = canvasNext s"
  "bottleRect (update noise d s) = bottleRect s"
  "dragState (update noise d s) = dragState s"
proof -
  let ?s1 = "snd (snd (forEachGrower noise (growers s) s))"
  let ?s2 = "?s1\<lparr>growers := growers (update noise d s)\<rparr>"
  note f1 = sameBut_fields [OF sameBut_forEachGrower [of s noise "growers s"]]
  note f2 = sameBut_fields [OF sameBut_composite [of ?s2]]
  show "settings (update noise d s) = settings s"
    "bottlePlants (update noise d s) = bottlePlants s"
    "plantHistory (update noise d s) = plantHistory s"
    "heap (update noise d s) = heap s"
    "heapNext (update noise d s) = heapNext s"
    "dimensions (update noise d s) = dimensions s"
    "canvasNext (update noise d s) = canvasNext s"
    "bottleRect (update noise d s) = bottleRect s"
    "dragState (update noise d s) = dragState s"
    by (subst update_unfold, simp add: f1 f2)+
qed

lemma invariant_update:
  assumes i: "invariant s"
  shows "invariant (update noise d s)"
proof (rule invariant_transfer [OF i extends_update])
  show "allocated (update noise d s) (settings (update noise d s))"
    using i by (simp add: update_fields invariant_def allocated_def)
  show "\<forall>p\<in>set (bottlePlants (update noise d s)). p \<in> set (bottlePlants s) \<or> plantOk (update noise d s) p"
    by (simp add: update_fields)
  show "\<forall>h\<in>set (plantHistory (update noise d s)).
       h \<in> set (plantHistory s) \<or> allocated (update noise d s) (h_settings h)"
    by (simp add: update_fields)
  show "\<forall>g\<in>set (growers (update noise d s)). g \<in> set (growers s) \<or> growerOk (update noise d s) g"
  proof
    fix g assume "g \<in> set (growers (update noise d s))"
    then consider "g \<in> set (fst (forEachGrower noise (growers s) s))"
      | "g \<in> set (fst (snd (forEachGrower noise (growers s) s)))"
      by (auto simp: update_growers)
    then have "growerOk s g"
    proof cases
      case 1
      then obtain g0 s1 where "g0 \<in> set (growers s)" "sameBut s s1" "g = fst (stepGrower noise g0 s1)"
        using forEachGrower_stepped by blast
      then show ?thesis using i growerOk_step by (auto simp: invariant_def)
    next
      case 2
      then obtain g0 s1 where "g0 \<in> set (growers s)" "sameBut s s1"
          "g \<in> set (fst (snd (stepGrower noise g0 s1)))"
        using forEachGrower_pushed by blast
      then show ?thesis using i growerOk_pushed by (auto simp: invariant_def)
    qed
    then have "growerOk (update noise d s) g" using extends_update by (rule growerOk_extends [rotated])
    then show "g \<in> set (growers s) \<or> growerOk (update noise d s) g" by simp
  qed
qed

theorem reachable_invariant: "reachable s \<Longrightarrow> invariant s"
proof (induction rule: reachable.induct)
  case (r_spawn s d x0 y0 b)
  then show ?case by (intro invariant_spawnPlant) (simp_all add: invariant_def)
next
  case (r_spawn_with s r d x0 y0 b)
  then show ?case by (intro invariant_spawnPlant) simp_all
qed (simp_all add: invariant_mount invariant_handleResize invariant_clearEffect invariant_undo
       invariant_updateBottleRect invariant_update invariant_handlePointerDown
       invariant_handlePointerMove invariant_handlePointerUp invariant_updateSettings
       invariant_setSettings invariant_parseSeed)

section \<open>Facts about the object store and the composite\<close>

lemma updateSettings_unfold:
  "updateSettings n s =
     s\<lparr>heap := (heap s)(heapNext s := merge (heap s (settings s)) n),
       heapNext := Suc (heapNext s), settings := heapNext s\<rparr>"
  by (simp add: updateSettings_def newObject_def setSettings_def)

lemma spawnPlant_heap:
  "heap (spawnPlant d x0 y0 ov b s) =
     (heap s)(heapNext s := heap s (case ov of Some r \<Rightarrow> r | None \<Rightarrow> settings s))"
  "heapNext (spawnPlant d x0 y0 ov b s) = Suc (heapNext s)"
  "plantHistory (spawnPlant d x0 y0 ov b s) =
     pushHistory \<lparr>h_x = x0, h_y = y0, h_settings = heapNext s, h_timestamp = now d\<rparr> (plantHistory s)"
  by (simp_all add: spawnPlant_def newObject_def createGrower_def uuid_def mathRandom_def Let_def
        split: prod.splits option.splits)

lemma spawnPlant_new_grower:
  "g \<in> set (growers (spawnPlant d x0 y0 ov b s)) \<Longrightarrow>
     g \<in> set (growers s) \<or> g_settings g = (case ov of Some r \<Rightarrow> r | None \<Rightarrow> settings s)"
  by (auto simp: spawnPlant_def newObject_def createGrower_def uuid_def mathRandom_def Let_def
        split: prod.splits option.splits if_splits)

lemma composite_fold_canvases:
  assumes "\<forall>p \<in> set ps. p_canvas p \<noteq> CanvasInside"
  shows "canvases (fold (\<lambda>plant s'. draw CanvasInside
             (DrawImage (content (canvases s' (p_canvas plant)))
                (p_currentX plant - p_originX plant) 0) s') ps s0) =
         (canvases s0)(CanvasInside := (canvases s0 CanvasInside)
            \<lparr>content := content (canvases s0 CanvasInside) @
               map (\<lambda>p. DrawImage (content (canvases s0 (p_canvas p)))
                      (p_currentX p - p_originX p) 0) ps\<rparr>)"
  using assms
proof (induction ps arbitrary: s0)
  case Nil
  show ?case by simp
next
  case (Cons p ps)
  let ?cmd = "DrawImage (content (canvases s0 (p_canvas p))) (p_currentX p - p_originX p) 0"
  let ?s1 = "draw CanvasInside ?cmd s0"
  have ne: "\<forall>q \<in> set ps. p_canvas q \<noteq> CanvasInside" using Cons.prems by simp
  have same: "\<forall>q \<in> set ps. canvases ?s1 (p_canvas q) = canvases s0 (p_canvas q)"
    using ne by (simp add: draw_def)
  have m: "map (\<lambda>q. DrawImage (content (canvases ?s1 (p_canvas q))) (p_currentX q - p_originX q) 0) ps
         = map (\<lambda>q. DrawImage (content (canvases s0 (p_canvas q))) (p_currentX q - p_originX q) 0) ps"
    using same by (intro map_cong) simp_all
  let ?F = "\<lambda>plant s'. draw CanvasInside
             (DrawImage (content (canvases s' (p_canvas plant)))
                (p_currentX plant - p_originX plant) 0) s'"
  have "canvases (fold ?F (p # ps) s0) = canvases (fold ?F ps ?s1)" by simp
  also have "\<dots> = (canvases ?s1)(CanvasInside := (canvases ?s1 CanvasInside)
            \<lparr>content := content (canvases ?s1 CanvasInside) @
               map (\<lambda>q. DrawImage (content (canvases ?s1 (p_canvas q)))
                      (p_currentX q - p_originX q) 0) ps\<rparr>)"
    by (rule Cons.IH [OF ne])
  also have "\<dots> = (canvases s0)(CanvasInside := (canvases s0 CanvasInside)
            \<lparr>content := content (canvases s0 CanvasInside) @
               map (\<lambda>q. DrawImage (content (canvases s0 (p_canvas q)))
                      (p_currentX q - p_originX q) 0) (p # ps)\<rparr>)"
    unfolding m by (simp add: draw_def fun_eq_iff)
  finally show ?case .
qed

lemma composite_canvases:
  assumes "\<forall>p \<in> set (bottlePlants s). p_canvas p \<noteq> CanvasInside" and "sized s CanvasInside"
  shows "content (canvases (compositeBottlePlants s) CanvasInside) =
           map (\<lambda>p. DrawImage (content (canvases s (p_canvas p)))
                  (p_currentX p - p_originX p) 0) (bottlePlants s)"
    and "c \<noteq> CanvasInside \<Longrightarrow> canvases (compositeBottlePlants s) c = canvases s c"
proof -
  let ?s0 = "clearRect CanvasInside 0 0 (fst (dimensions s)) (snd (dimensions s)) s"
  have bp: "bottlePlants ?s0 = bottlePlants s" by (simp add: sameBut_fields(7) [OF sameBut_clearRect])
  have c0: "content (canvases ?s0 CanvasInside) = []"
    using assms(2) by (simp add: clearRect_canvases sized_covers)
  have oth: "canvases ?s0 (p_canvas p) = canvases s (p_canvas p)" if "p \<in> set (bottlePlants s)" for p
    using that assms(1) by (simp add: clearRect_canvases)
  have m: "map (\<lambda>p. DrawImage (content (canvases ?s0 (p_canvas p))) (p_currentX p - p_originX p) 0)
             (bottlePlants s)
         = map (\<lambda>p. DrawImage (content (canvases s (p_canvas p))) (p_currentX p - p_originX p) 0)
             (bottlePlants s)"
    using oth by (intro map_cong) simp_all
  note f = composite_fold_canvases [OF assms(1), of ?s0]
  show "content (canvases (compositeBottlePlants s) CanvasInside) =
           map (\<lambda>p. DrawImage (content (canvases s (p_canvas p)))
                  (p_currentX p - p_originX p) 0) (bottlePlants s)"
    unfolding compositeBottlePlants_def f by (simp add: c0 m)
  show "c \<noteq> CanvasInside \<Longrightarrow> canvases (compositeBottlePlants s) c = canvases s c"
    unfolding compositeBottlePlants_def f by (simp add: clearRect_canvases)
qed

section \<open>Evaluating the example runs\<close>

text \<open>
  Each example state is evaluated field by field, from the fields of the state before
  it.
\<close>

lemmas effect_defs = mount_def handleResize_def clearEffect_def dimensionsEffect_def
  initialGarden_def resizeCanvas_def fillRect_def clearRect_def covers_def draw_def Let_def

lemmas spawn_defs = spawnPlant_def newObject_def pushHistory_def createGrower_def uuid_def
  mathRandom_def parseSeed_def setSettings_def Let_def

lemmas step_defs = stepGrower_def isTerminal_def growStep_def updateAngle_def drawStem_def
  leafTrial_def leafAngleOffset_def drawLeaf_def branchTrial_def branchChance_def
  branchAngleOffset_def lerpColor_def createGrower_def uuid_def mathRandom_def draw_def Let_def

lemmas pointer_defs = handlePointerDown_def updateBottleRect_def hitTest_def
  undoLastBottlePlant_def demoBounds_def pointerAt_def

lemma demoDom_fields [simp]:
  "containerRect demoDom = Some \<lparr>r_left = 0, r_top = 0, r_right = 800, r_bottom = 600\<rparr>"
  "outsideCanvas demoDom" "outsideContext demoDom" "insideCanvas demoDom"
  "insideContext demoDom" "offscreenContext demoDom" "now demoDom = 0"
  by (simp_all add: demoDom_def)

lemma shiftedDom_fields [simp]:
  "containerRect shiftedDom = Some \<lparr>r_left = 100, r_top = 0, r_right = 900, r_bottom = 600\<rparr>"
  "outsideCanvas shiftedDom" "outsideContext shiftedDom" "insideCanvas shiftedDom"
  "insideContext shiftedDom" "offscreenContext shiftedDom" "now shiftedDom = 0"
  by (simp_all add: shiftedDom_def)

lemma failingDom_fields [simp]:
  "\<not> offscreenContext failingDom" "now failingDom = 0"
  by (simp_all add: failingDom_def)

lemma demoGardenOn_fields:
  "heap (demoGardenOn tape) = (\<lambda>_. PRESET_VINE)"
  "heapNext (demoGardenOn tape) = 1"
  "settings (demoGardenOn tape) = 0"
  "dimensions (demoGardenOn tape) = (800, 600)"
  "canvases (demoGardenOn tape) CanvasOutside =
     \<lparr>cwidth = 800, cheight = 600, content = [FillRect (Solid ''#fdfbf7'') 0 0 800 600]\<rparr>"
  "canvases (demoGardenOn tape) CanvasInside = \<lparr>cwidth = 800, cheight = 600, content = []\<rparr>"
  "canvases (demoGardenOn tape) (OffCanvas n) = \<lparr>cwidth = 300, cheight = 150, content = []\<rparr>"
  "canvasNext (demoGardenOn tape) = 0"
  "growers (demoGardenOn tape) = []"
  "bottlePlants (demoGardenOn tape) = []"
  "plantHistory (demoGardenOn tape) = []"
  "bottleRect (demoGardenOn tape) = None"
  "dragState (demoGardenOn tape) = None"
  "rnd (demoGardenOn tape) = tape"
  "rndPos (demoGardenOn tape) = 0"
  by (simp_all add: demoGardenOn_def effect_defs)

lemmas demoGarden_fields = demoGardenOn_fields [of demoTape, folded demoGarden_def]

lemma demoBottle_fields:
  "heap demoBottle 0 = PRESET_VINE"
  "heap demoBottle (Suc 0) = demoSeed"
  "heap demoBottle 2 = demoSeed"
  "heapNext demoBottle = 3"
  "settings demoBottle = 1"
  "dimensions demoBottle = (800, 600)"
  "canvases demoBottle CanvasOutside =
     \<lparr>cwidth = 800, cheight = 600, content = [FillRect (Solid ''#fdfbf7'') 0 0 800 600]\<rparr>"
  "canvases demoBottle CanvasInside = \<lparr>cwidth = 800, cheight = 600, content = []\<rparr>"
  "canvases demoBottle (OffCanvas 0) = \<lparr>cwidth = 800, cheight = 600, content = []\<rparr>"
  "canvasNext demoBottle = 1"
  "growers demoBottle =
     [\<lparr>g_id = 1 / 2, g_x = 150, g_y = 500, g_angle = - pi / 2 + (1 / 2 * 0.2 - 0.1), g_life = 0,
       g_maxLife = 0, g_width = 6, g_speed = 3, g_color = ''#86efac'', g_settings = 1,
       g_noiseOffset = 1 / 2 * 1000, g_generation = 0, g_ctx = OffCanvas 0,
       g_hasAttemptedFlower = False\<rparr>]"
  "bottlePlants demoBottle =
     [\<lparr>p_id = 1 / 2, p_originX = 150, p_currentX = 150, p_y = 500, p_canvas = OffCanvas 0,
       p_ctx = OffCanvas 0, p_settings = 1\<rparr>]"
  "plantHistory demoBottle = [\<lparr>h_x = 150, h_y = 500, h_settings = 2, h_timestamp = 0\<rparr>]"
  "bottleRect demoBottle = None"
  "dragState demoBottle = None"
  "rnd demoBottle = (\<lambda>_. 1 / 2)"
  "rndPos demoBottle = 4"
  by (simp_all add: demoBottle_def demoGarden_fields demoTape_def spawn_defs demoSeed_def
        PRESET_VINE_def)

lemma demoBottle_growers:
  "length (growers demoBottle) = 1"
  "g_life (growers demoBottle ! 0) = 0"
  "g_maxLife (growers demoBottle ! 0) = 0"
  "g_x (growers demoBottle ! 0) = 150"
  "g_y (growers demoBottle ! 0) = 500"
  "g_ctx (growers demoBottle ! 0) = OffCanvas 0"
  "g_generation (growers demoBottle ! 0) = 0"
  "g_settings (growers demoBottle ! 0) = 1"
  "g_hasAttemptedFlower (growers demoBottle ! 0) = False"
  by (simp_all add: demoBottle_fields)

lemma demoBottle_plants:
  "length (bottlePlants demoBottle) = 1"
  "p_ctx (last (bottlePlants demoBottle)) = OffCanvas 0"
  "p_canvas (last (bottlePlants demoBottle)) = OffCanvas 0"
  by (simp_all add: demoBottle_fields)

lemma demoBoth_fields:
  "map g_ctx (growers demoBoth) = [OffCanvas 0, CanvasOutside]"
  "bottlePlants demoBoth = bottlePlants demoBottle"
  "length (plantHistory demoBoth) = 2"
  "dimensions demoBoth = (800, 600)"
  "canvases demoBoth CanvasOutside =
     \<lparr>cwidth = 800, cheight = 600, content = [FillRect (Solid ''#fdfbf7'') 0 0 800 600]\<rparr>"
  by (simp_all add: demoBoth_def demoBottle_fields spawn_defs)

lemma demoBranching_growers:
  "growers demoBranching =
     [\<lparr>g_id = 1 / 1000, g_x = 100, g_y = 100, g_angle = - pi / 2 + (1 / 1000 * 0.2 - 0.1),
       g_life = 0, g_maxLife = 280, g_width = 6, g_speed = 3, g_color = ''#86efac'',
       g_settings = 0, g_noiseOffset = 1 / 1000 * 1000, g_generation = 0,
       g_ctx = CanvasOutside, g_hasAttemptedFlower = False\<rparr>]"
  "heap demoBranching 0 = PRESET_VINE"
  "rnd demoBranching = (\<lambda>_. 1 / 1000)"
  by (simp_all add: demoBranching_def demoGardenOn_fields branchTape_def spawn_defs PRESET_VINE_def)

lemma demoBranching_push:
  "length (fst (snd (stepGrower demoNoise (growers demoBranching ! 0) demoBranching))) = 1"
  by (simp add: demoBranching_growers step_defs PRESET_VINE_def demoNoise_def)

lemma demoDrag_eval:
  "dragState demoDrag = Some \<lparr>d_plantId = 1 / 2, d_startX = 160, d_plantStartX = 150\<rparr>"
  "bottleRect demoDrag = Some demoBounds"
  "bottlePlants demoDrag = bottlePlants demoBottle"
  "growers demoDrag = growers demoBottle"
  by (simp_all add: demoDrag_def pointer_defs demoBottle_fields)

lemma shiftedDrag_eval:
  "dragState shiftedDrag = Some \<lparr>d_plantId = 1 / 2, d_startX = 160, d_plantStartX = 150\<rparr>"
  "bottleRect shiftedDrag = Some demoBounds"
  "bottlePlants shiftedDrag = bottlePlants demoBottle"
  by (simp_all add: shiftedDrag_def pointer_defs demoBottle_fields)

lemma demoStale_eval:
  "dragState demoStale = Some \<lparr>d_plantId = 1 / 2, d_startX = 160, d_plantStartX = 150\<rparr>"
  "bottlePlants demoStale = []"
  "growers demoStale = []"
  by (simp_all add: demoStale_def undoLastBottlePlant_def demoDrag_eval demoBottle_fields)

lemma demoTrace_fields:
  "g_life (demoTrace k) = k"
  "g_maxLife (demoTrace k) = 0"
  "g_hasAttemptedFlower (demoTrace k) = (0 < k)"
  "g_generation (demoTrace k) = 0"
  "g_ctx (demoTrace k) = OffCanvas 0"
  "g_settings (demoTrace k) = Suc 0"
  by (simp_all add: demoTrace_def demoBottle_fields)

lemma demoTrace_terminal: "isTerminal (demoTrace k)"
  by (simp add: isTerminal_def demoTrace_fields)

lemma demoTrace_run: "demoTrace (Suc k) = fst (stepGrower demoNoise (demoTrace k) demoBottle)"
proof -
  have "fst (stepGrower demoNoise (demoTrace k) demoBottle) =
      (demoTrace k)\<lparr>g_hasAttemptedFlower := True, g_life := Suc (g_life (demoTrace k))\<rparr>"
    by (rule stepGrower_terminal(1) [OF demoTrace_terminal])
  also have "\<dots> = demoTrace (Suc k)" by (simp add: demoTrace_def)
  finally show ?thesis by simp
qed

lemma reachable_demoGardenOn: "reachable (demoGardenOn tape)"
  unfolding demoGardenOn_def by (intro r_resize r_mount) simp_all

lemma reachable_demoBranching: "reachable demoBranching"
  unfolding demoBranching_def by (intro r_spawn reachable_demoGardenOn)

lemma reachable_demoBottle: "reachable demoBottle"
  unfolding demoBottle_def demoGarden_def
  by (intro r_spawn_with r_set r_parse reachable_demoGardenOn)
     (simp_all add: allocated_def parseSeed_def setSettings_def newObject_def demoGardenOn_fields)

lemma reachable_demoDragged: "reachable demoDragged"
  unfolding demoDragged_def demoDrag_def
  by (intro r_move r_down r_bounds reachable_demoBottle)

lemma demoBranching_tick:
  "\<exists>g' c. growers (update demoNoise demoDom demoBranching) = [g', c] \<and>
     g_generation g' = 0 \<and> g_settings g' = 0 \<and> g_generation c = 1 \<and> g_settings c = 0"
proof -
  let ?g = "growers demoBranching ! 0"
  let ?step = "stepGrower demoNoise ?g demoBranching"
  have gs: "growers demoBranching = [?g]" by (simp add: demoBranching_growers(1))
  have g0: "g_generation ?g = 0" "g_settings ?g = 0" "g_life ?g = 0" "g_maxLife ?g = 280"
    by (simp_all add: demoBranching_growers(1))
  have fe: "fst (forEachGrower demoNoise (growers demoBranching) demoBranching) = [fst ?step]"
    "fst (snd (forEachGrower demoNoise (growers demoBranching) demoBranching)) = fst (snd ?step)"
    by (subst gs, simp add: forEachGrower_Cons del: forEachGrower.simps(2))+
  have "fst (snd ?step) \<noteq> []" using demoBranching_push by auto
  with stepGrower_pushed [of demoNoise ?g demoBranching]
  obtain c where c: "fst (snd ?step) = [c]" "g_generation c = g_generation ?g + 1"
      "g_settings c = g_settings ?g" "g_life c = 0"
      "g_maxLife c = maxLife (heap demoBranching (g_settings ?g)) / (real (g_generation ?g + 1) + 1)"
    by auto
  have ka: "keepAlive (fst ?step)" "keepAlive c"
    by (simp_all add: keepAlive_def stepGrower_static c g0 demoBranching_growers(2) PRESET_VINE_def)
  have "growers (update demoNoise demoDom demoBranching) = [fst ?step, c]"
    by (simp add: update_growers fe c ka)
  then show ?thesis by (simp add: stepGrower_static g0 c)
qed

lemma demoBranching_more:
  "settings demoBranching = 0"
  "heapNext demoBranching = 2"
  by (simp_all add: demoBranching_def demoGardenOn_fields spawn_defs)

lemma demoDragged_fields:
  "bottlePlants demoDragged =
     [\<lparr>p_id = 1 / 2, p_originX = 150, p_currentX = 280, p_y = 500, p_canvas = OffCanvas 0,
       p_ctx = OffCanvas 0, p_settings = 1\<rparr>]"
  "growers demoDragged = growers demoBottle"
  by (simp_all add: demoDragged_def handlePointerMove_def dragX_def demoDrag_eval demoBottle_fields
        demoBounds_def pointerAt_def)

section \<open>The claims\<close>

text \<open>
  Claim C1. Lifecycle of a live unit. Take the \<open>i\<close>-th live grower \<open>g\<close> and let \<open>g'\<close> be
  what the tick's visit makes of it (the \<open>i\<close>-th grower after \<^verbatim>\<open>forEach\<close>, which is one
  \<open>stepGrower\<close> of \<open>g\<close>). Its life has grown by one and its maximal life is as before; it is
  in the live set after the tick if and only if its life is below its maximal life plus
  50; and if \<open>g\<close> was terminal (life at least the maximal life, or width below 0.1) then
  \<open>g'\<close> is terminal again and stands where \<open>g\<close> stood. The live set after the tick is the
  visited and the pushed growers filtered by that test. An undo with a bottle plant to
  pop keeps exactly the growers whose context is not the popped plant's, whatever their
  life.
\<close>

theorem unit_lifecycle:
  assumes "i < length (growers s)"
  shows "(let g = growers s ! i; g' = fst (forEachGrower noise (growers s) s) ! i in
            (\<exists>s1. sameBut s s1 \<and> g' = fst (stepGrower noise g s1)) \<and>
            g_life g' = Suc (g_life g) \<and> g_maxLife g' = g_maxLife g \<and>
            (g' \<in> set (growers (update noise d s)) \<longleftrightarrow> real (g_life g') < g_maxLife g' + 50) \<and>
            (isTerminal g \<longrightarrow> isTerminal g' \<and> g_x g' = g_x g \<and> g_y g' = g_y g)) \<and>
         growers (update noise d s) =
           filter (\<lambda>u. real (g_life u) < g_maxLife u + 50)
             (fst (forEachGrower noise (growers s) s) @
              fst (snd (forEachGrower noise (growers s) s))) \<and>
         (bottlePlants s \<noteq> [] \<longrightarrow>
            growers (undoLastBottlePlant s) =
              filter (\<lambda>u. g_ctx u \<noteq> p_ctx (last (bottlePlants s))) (growers s))"
proof -
  let ?st = "fst (forEachGrower noise (growers s) s)"
  let ?g = "growers s ! i" and ?g' = "?st ! i"
  obtain s1 where sb: "sameBut s s1" and g': "?g' = fst (stepGrower noise ?g s1)"
    using forEachGrower_nth [OF assms] by blast
  have ka: "keepAlive = (\<lambda>u. real (g_life u) < g_maxLife u + 50)"
    by (simp add: keepAlive_def fun_eq_iff)
  have upd: "growers (update noise d s) =
      filter (\<lambda>u. real (g_life u) < g_maxLife u + 50)
        (?st @ fst (snd (forEachGrower noise (growers s) s)))"
    by (simp add: update_growers ka)
  have mem: "?g' \<in> set ?st" using assms by (simp add: forEachGrower_length)
  have 1: "g_life ?g' = Suc (g_life ?g)" "g_maxLife ?g' = g_maxLife ?g"
    by (simp_all add: g' stepGrower_static)
  have 2: "?g' \<in> set (growers (update noise d s)) \<longleftrightarrow> real (g_life ?g') < g_maxLife ?g' + 50"
    using mem unfolding upd by auto
  have 3: "isTerminal ?g \<longrightarrow> isTerminal ?g' \<and> g_x ?g' = g_x ?g \<and> g_y ?g' = g_y ?g"
    using isTerminal_step [of ?g noise s1] by (auto simp: g' stepGrower_terminal)
  have 4: "\<exists>s1. sameBut s s1 \<and> ?g' = fst (stepGrower noise ?g s1)" using sb g' by blast
  show ?thesis
    unfolding Let_def using 1 2 3 4 upd undo_growers by blast
qed

text \<open>
  The theorem at the seed planted in the bottle: its one grower is terminal from the
  start; after a tick its life is 1, it is still live (1 is below 0 + 50) and still at
  (150, 500); an undo then leaves no grower at all.
\<close>

theorem unit_lifecycle_witness:
  "0 < length (growers demoBottle) \<and>
   isTerminal (growers demoBottle ! 0) \<and>
   bottlePlants demoBottle \<noteq> [] \<and>
   g_life (fst (forEachGrower demoNoise (growers demoBottle) demoBottle) ! 0) = 1 \<and>
   g_x (fst (forEachGrower demoNoise (growers demoBottle) demoBottle) ! 0) = 150 \<and>
   g_y (fst (forEachGrower demoNoise (growers demoBottle) demoBottle) ! 0) = 500 \<and>
   isTerminal (fst (forEachGrower demoNoise (growers demoBottle) demoBottle) ! 0) \<and>
   fst (forEachGrower demoNoise (growers demoBottle) demoBottle) ! 0
     \<in> set (growers (update demoNoise demoDom demoBottle)) \<and>
   growers (undoLastBottlePlant demoBottle) = []"
proof -
  let ?g = "growers demoBottle ! 0"
  let ?g' = "fst (forEachGrower demoNoise (growers demoBottle) demoBottle) ! 0"
  have h: "0 < length (growers demoBottle)" by (simp add: demoBottle_growers)
  have tg: "isTerminal ?g" by (simp add: isTerminal_def demoBottle_growers)
  have pl: "bottlePlants demoBottle \<noteq> []" using demoBottle_plants(1) by auto
  note t = unit_lifecycle [OF h, of demoNoise demoDom, unfolded Let_def]
  from t have a: "g_life ?g' = Suc (g_life ?g)" and b: "g_maxLife ?g' = g_maxLife ?g"
    and c: "?g' \<in> set (growers (update demoNoise demoDom demoBottle))
             \<longleftrightarrow> real (g_life ?g') < g_maxLife ?g' + 50"
    and e: "isTerminal ?g \<longrightarrow> isTerminal ?g' \<and> g_x ?g' = g_x ?g \<and> g_y ?g' = g_y ?g"
    and u: "bottlePlants demoBottle \<noteq> [] \<longrightarrow>
              growers (undoLastBottlePlant demoBottle) =
                filter (\<lambda>u. g_ctx u \<noteq> p_ctx (last (bottlePlants demoBottle))) (growers demoBottle)"
    by blast+
  have life: "g_life ?g' = 1" "g_maxLife ?g' = 0" using a b demoBottle_growers by simp_all
  have live: "?g' \<in> set (growers (update demoNoise demoDom demoBottle))" using c life by simp
  have pos: "isTerminal ?g'" "g_x ?g' = 150" "g_y ?g' = 500"
    using e tg demoBottle_growers by simp_all
  have gs: "growers demoBottle = [?g]"
    using demoBottle_growers(1) by (cases "growers demoBottle") simp_all
  have "filter (\<lambda>u. g_ctx u \<noteq> p_ctx (last (bottlePlants demoBottle))) (growers demoBottle) = []"
    by (subst gs) (simp add: demoBottle_growers demoBottle_plants)
  then have undo: "growers (undoLastBottlePlant demoBottle) = []" using u pl by simp
  show ?thesis using h tg pl life live pos undo by simp
qed

text \<open>
  Claim C3. Branching and generations. Every grower that one step of \<open>g\<close> pushes has the
  generation of \<open>g\<close> plus 1, and then \<open>g\<close> has a generation below 2 and is not terminal. A
  grower of generation 2 or more pushes nothing, and its branch trial does nothing at
  all: it reads no random number. In a whole tick, every grower pushed has the generation
  of one of the visited growers plus 1, and that grower's generation is below 2.
\<close>

theorem branch_generation:
  "(\<forall>c \<in> set (fst (snd (stepGrower noise g s))).
       g_generation c = g_generation g + 1 \<and> g_generation g < 2 \<and> \<not> isTerminal g) \<and>
   (2 \<le> g_generation g \<longrightarrow>
       fst (snd (stepGrower noise g s)) = [] \<and> branchTrial g a s = ([], s)) \<and>
   (\<forall>c \<in> set (fst (snd (forEachGrower noise gs s))).
       \<exists>p \<in> set gs. g_generation c = g_generation p + 1 \<and> g_generation p < 2)"
proof -
  have 1: "\<forall>c \<in> set (fst (snd (stepGrower noise g s))).
       g_generation c = g_generation g + 1 \<and> g_generation g < 2 \<and> \<not> isTerminal g" for g s
    using stepGrower_pushed [of noise g s] by auto
  have 2: "2 \<le> g_generation g \<longrightarrow>
       fst (snd (stepGrower noise g s)) = [] \<and> branchTrial g a s = ([], s)"
    using stepGrower_pushed [of noise g s] by (auto simp: branchTrial_def)
  have 3: "\<forall>c \<in> set (fst (snd (forEachGrower noise gs s))).
       \<exists>p \<in> set gs. g_generation c = g_generation p + 1 \<and> g_generation p < 2"
    using forEachGrower_pushed [of _ noise gs s] 1 by blast
  show ?thesis using 1 2 3 by blast
qed

text \<open>
  The theorem at the vine on the branching tape: its first step pushes one grower, of
  generation 1; the same grower with its generation set to 2 pushes none.
\<close>

theorem branch_generation_witness:
  "map g_generation (fst (snd (stepGrower demoNoise (growers demoBranching ! 0) demoBranching)))
     = [1] \<and>
   2 \<le> g_generation ((growers demoBranching ! 0)\<lparr>g_generation := 2\<rparr>) \<and>
   fst (snd (stepGrower demoNoise ((growers demoBranching ! 0)\<lparr>g_generation := 2\<rparr>)
     demoBranching)) = []"
proof -
  define g where "g = growers demoBranching ! 0"
  let ?p = "fst (snd (stepGrower demoNoise g demoBranching))"
  have gen: "g_generation g = 0" by (simp add: g_def demoBranching_growers(1))
  have len: "length ?p = 1" unfolding g_def by (rule demoBranching_push)
  then obtain c where c: "?p = [c]" by (cases ?p) simp_all
  note t = branch_generation [of demoNoise g demoBranching 0 "[]"]
  note t2 = branch_generation [of demoNoise "g\<lparr>g_generation := 2\<rparr>" demoBranching 0 "[]"]
  from t have "\<forall>c \<in> set ?p. g_generation c = g_generation g + 1" by blast
  then have 1: "map g_generation ?p = [1]" by (simp add: c gen)
  have 2: "2 \<le> g_generation (g\<lparr>g_generation := 2\<rparr>)" by simp
  with t2 have 3: "fst (snd (stepGrower demoNoise (g\<lparr>g_generation := 2\<rparr>) demoBranching)) = []"
    by blast
  show ?thesis unfolding g_def [symmetric] using 1 2 3 by blast
qed

text \<open>
  Claim C7, as the code has it. During a drag session whose plant is found, a pointer
  move computes \<open>newX\<close> = the plant's x at the start + (pointer x - pointer x at the
  start), the pointer's x taken relative to the container's left edge. With bounds
  registered, what is written is \<open>newX\<close> clamped between the bounds' left edge + 20 and
  their right edge - 20, both edges first moved left by the container's left edge (the
  registered rectangle is in window coordinates, the plant's x in canvas coordinates);
  with no bounds it is \<open>newX\<close>. It is written to the \<^verbatim>\<open>currentX\<close> of the first plant that
  has the session's identifier, and nothing else in the state changes: no grower is
  spawned, no history is recorded, no random number is read. When the clamping interval
  is not empty the written value lies in it. With the container at the window's left
  edge, bounds from 0 to 300 and \<open>newX\<close> = 350, the value written is 280.
\<close>

theorem drag_clamp:
  assumes "containerRect d = Some rect" and "dragState s = Some ds"
    and "find (\<lambda>p. p_id p = d_plantId ds) (bottlePlants s) = Some plant"
  shows "(let newX = d_plantStartX ds + ((e_clientX e - r_left rect) - d_startX ds);
              written = (case bottleRect s of
                           None \<Rightarrow> newX
                         | Some b \<Rightarrow> max (r_left b - r_left rect + 20)
                                       (min (r_right b - r_left rect - 20) newX));
              s' = handlePointerMove d e s
          in (\<exists>pre post. bottlePlants s = pre @ plant # post \<and>
                (\<forall>q \<in> set pre. p_id q \<noteq> d_plantId ds) \<and>
                bottlePlants s' = pre @ plant\<lparr>p_currentX := written\<rparr> # post) \<and>
             s' = s\<lparr>bottlePlants := bottlePlants s'\<rparr> \<and>
             (\<forall>b. bottleRect s = Some b \<and> r_left b + 20 \<le> r_right b - 20 \<longrightarrow>
                r_left b - r_left rect + 20 \<le> written \<and> written \<le> r_right b - r_left rect - 20) \<and>
             (\<forall>b. bottleRect s = Some b \<and> r_left rect = 0 \<and> r_left b = 0 \<and> r_right b = 300 \<and>
                  newX = 350 \<longrightarrow> written = 280))"
proof -
  let ?P = "\<lambda>p. p_id p = d_plantId ds"
  let ?newX = "d_plantStartX ds + ((e_clientX e - r_left rect) - d_startX ds)"
  let ?w = "case bottleRect s of None \<Rightarrow> ?newX
            | Some b \<Rightarrow> max (r_left b - r_left rect + 20) (min (r_right b - r_left rect - 20) ?newX)"
  let ?f = "\<lambda>p. p\<lparr>p_currentX := ?w\<rparr>"
  have w: "dragX rect (bottleRect s) ds (e_clientX e - r_left rect) = ?w"
    by (simp add: dragX_def Let_def split: option.splits)
  have mv: "handlePointerMove d e s = s\<lparr>bottlePlants := updateFound ?P ?f (bottlePlants s)\<rparr>"
    using handlePointerMove_drag [OF assms] by (simp only: w)
  obtain pre post where sp: "bottlePlants s = pre @ plant # post" "\<forall>q \<in> set pre. \<not> ?P q"
      "updateFound ?P ?f (bottlePlants s) = pre @ ?f plant # post"
    using find_split [OF assms(3)] by blast
  have 1: "\<exists>pre post. bottlePlants s = pre @ plant # post \<and>
                (\<forall>q \<in> set pre. p_id q \<noteq> d_plantId ds) \<and>
                bottlePlants (handlePointerMove d e s) = pre @ plant\<lparr>p_currentX := ?w\<rparr> # post"
    using sp by (intro exI [of _ pre] exI [of _ post]) (simp add: mv)
  have 2: "handlePointerMove d e s = s\<lparr>bottlePlants := bottlePlants (handlePointerMove d e s)\<rparr>"
    by (simp add: mv)
  have 3: "\<forall>b. bottleRect s = Some b \<and> r_left b + 20 \<le> r_right b - 20 \<longrightarrow>
                r_left b - r_left rect + 20 \<le> ?w \<and> ?w \<le> r_right b - r_left rect - 20"
    by auto
  have 4: "\<forall>b. bottleRect s = Some b \<and> r_left rect = 0 \<and> r_left b = 0 \<and> r_right b = 300 \<and>
                  ?newX = 350 \<longrightarrow> ?w = 280"
    by auto
  show ?thesis unfolding Let_def using 1 2 3 4 by blast
qed

text \<open>
  The theorem at the plant in the bottle, container at the window's left edge, bounds
  from 0 to 300: the pointer went down at 160 with the plant at 150, and moves to 360, so
  \<open>newX\<close> is 350; the plant's \<^verbatim>\<open>currentX\<close> becomes 280, and no grower and no history item
  is added.
\<close>

theorem drag_clamp_witness:
  "containerRect demoDom = Some \<lparr>r_left = 0, r_top = 0, r_right = 800, r_bottom = 600\<rparr> \<and>
   dragState demoDrag = Some \<lparr>d_plantId = 1 / 2, d_startX = 160, d_plantStartX = 150\<rparr> \<and>
   bottleRect demoDrag = Some \<lparr>r_left = 0, r_top = 0, r_right = 300, r_bottom = 280\<rparr> \<and>
   map p_currentX (bottlePlants demoDrag) = [150] \<and>
   150 + ((e_clientX (pointerAt 360 400) - 0) - 160) = (350::real) \<and>
   map p_currentX (bottlePlants (handlePointerMove demoDom (pointerAt 360 400) demoDrag)) = [280] \<and>
   growers (handlePointerMove demoDom (pointerAt 360 400) demoDrag) = growers demoDrag \<and>
   plantHistory (handlePointerMove demoDom (pointerAt 360 400) demoDrag) = plantHistory demoDrag"
proof -
  let ?rect = "\<lparr>r_left = 0, r_top = 0, r_right = 800, r_bottom = 600\<rparr>"
  let ?ds = "\<lparr>d_plantId = 1 / 2, d_startX = 160, d_plantStartX = 150\<rparr>"
  let ?s' = "handlePointerMove demoDom (pointerAt 360 400) demoDrag"
  obtain plant where pl: "bottlePlants demoDrag = [plant]" and pid: "p_id plant = 1 / 2"
      and px: "p_currentX plant = 150"
    by (simp add: demoDrag_eval demoBottle_fields)
  have f: "find (\<lambda>p. p_id p = d_plantId ?ds) (bottlePlants demoDrag) = Some plant"
    by (simp add: pl pid)
  note t = drag_clamp [OF demoDom_fields(1) demoDrag_eval(1) f, of "pointerAt 360 400",
      unfolded Let_def]
  from t obtain pre post where
      a: "bottlePlants demoDrag = pre @ plant # post"
      and b: "bottlePlants ?s' = pre @ plant\<lparr>p_currentX :=
          (case bottleRect demoDrag of
             None \<Rightarrow> d_plantStartX ?ds + ((e_clientX (pointerAt 360 400) - r_left ?rect) - d_startX ?ds)
           | Some b \<Rightarrow> max (r_left b - r_left ?rect + 20) (min (r_right b - r_left ?rect - 20)
               (d_plantStartX ?ds
                  + ((e_clientX (pointerAt 360 400) - r_left ?rect) - d_startX ?ds))))\<rparr> # post"
    by blast
  from a pl have "pre = [] \<and> post = []" by (cases pre) auto
  with b have 1: "map p_currentX (bottlePlants ?s') = [280]"
    by (simp add: demoDrag_eval(2) demoBounds_def pointerAt_def)
  from t have "?s' = demoDrag\<lparr>bottlePlants := bottlePlants ?s'\<rparr>" by blast
  then have 2: "growers ?s' = growers demoDrag" "plantHistory ?s' = plantHistory demoDrag"
    by (metis garden.select_convs(7) garden.surjective garden.update_convs(8),
        metis garden.select_convs(9) garden.surjective garden.update_convs(8))
  have 3: "map p_currentX (bottlePlants demoDrag) = [150]" by (simp add: pl px)
  show ?thesis
    using demoDrag_eval(1,2) 1 2 3 by (simp add: demoBounds_def pointerAt_def)
qed

text \<open>
  Claim C7 as stated fails when the container does not sit at the window's left edge.
  Here it sits 100 to the right; the registered bounds span 0 to 300; the pointer went
  down at 260 (160 on the canvas) with the plant at 150, and moves to 460, so \<open>newX\<close> is
  350. The claim's interval is from 20 to 280; the code writes 180.
\<close>

theorem drag_clamp_counterexample:
  "dragState shiftedDrag = Some \<lparr>d_plantId = 1 / 2, d_startX = 160, d_plantStartX = 150\<rparr> \<and>
   bottleRect shiftedDrag = Some \<lparr>r_left = 0, r_top = 0, r_right = 300, r_bottom = 280\<rparr> \<and>
   150 + ((e_clientX (pointerAt 460 400) - 100) - 160) = (350::real) \<and>
   map p_currentX (bottlePlants (handlePointerMove shiftedDom (pointerAt 460 400) shiftedDrag))
     = [180] \<and>
   map p_currentX (bottlePlants (handlePointerMove shiftedDom (pointerAt 460 400) shiftedDrag))
     \<noteq> [280]"
proof -
  have "map p_currentX (bottlePlants (handlePointerMove shiftedDom (pointerAt 460 400) shiftedDrag))
     = [180]"
    by (simp add: handlePointerMove_def shiftedDrag_eval demoBottle_fields dragX_def demoBounds_def
          pointerAt_def)
  then show ?thesis using shiftedDrag_eval(1,2) by (simp add: demoBounds_def pointerAt_def)
qed

text \<open>
  Claim C8, as the code has it. When the new canvas gives no context, a spawn into the
  bottle creates no bottle plant and no grower, and leaves the canvases, the drag state,
  the bounds, the live settings and the random tape as they were. It is not without
  effect: the history item of the spawn has been recorded before (with its copy of the
  settings, a new object), and the oldest item is dropped when that makes more than 50.
\<close>

theorem failed_allocation:
  assumes "\<not> offscreenContext d"
  shows "(let sref = (case ov of Some r \<Rightarrow> r | None \<Rightarrow> settings s);
              s' = spawnPlant d x0 y0 ov True s
          in growers s' = growers s \<and> bottlePlants s' = bottlePlants s \<and>
             canvases s' = canvases s \<and> canvasNext s' = canvasNext s \<and>
             dragState s' = dragState s \<and> bottleRect s' = bottleRect s \<and>
             settings s' = settings s \<and> dimensions s' = dimensions s \<and>
             rnd s' = rnd s \<and> rndPos s' = rndPos s \<and>
             plantHistory s' =
               pushHistory \<lparr>h_x = x0, h_y = y0, h_settings = heapNext s, h_timestamp = now d\<rparr>
                 (plantHistory s) \<and>
             heap s' = (heap s)(heapNext s := heap s sref) \<and>
             heapNext s' = Suc (heapNext s))"
  by (simp add: spawnPlant_failed [OF assms] Let_def)

text \<open>
  The theorem at the empty garden, on the page whose new canvases give no context: no
  grower, no bottle plant, the canvases as before, and one history item, at x = 150.
\<close>

theorem failed_allocation_witness:
  "\<not> offscreenContext failingDom \<and>
   growers (spawnPlant failingDom 150 500 None True demoGarden) = growers demoGarden \<and>
   bottlePlants (spawnPlant failingDom 150 500 None True demoGarden) = bottlePlants demoGarden \<and>
   canvases (spawnPlant failingDom 150 500 None True demoGarden) = canvases demoGarden \<and>
   map h_x (plantHistory (spawnPlant failingDom 150 500 None True demoGarden)) = [150]"
proof -
  have h: "\<not> offscreenContext failingDom" by simp
  show ?thesis
    using h failed_allocation [OF h, where ov = None and s = demoGarden and ?x0.0 = 150
        and ?y0.0 = 500, unfolded Let_def]
    by (simp add: demoGarden_fields pushHistory_def)
qed

text \<open>
  Claim C8 as stated (the spawn is a no-op) fails: the failed spawn into the empty garden
  leaves a history item behind, so the state after it is not the state before it.
\<close>

theorem failed_allocation_counterexample:
  "\<not> offscreenContext failingDom \<and>
   plantHistory demoGarden = [] \<and>
   map (\<lambda>h. (h_x h, h_y h)) (plantHistory (spawnPlant failingDom 150 500 None True demoGarden))
     = [(150, 500)] \<and>
   spawnPlant failingDom 150 500 None True demoGarden \<noteq> demoGarden"
proof -
  have h: "\<not> offscreenContext failingDom" by simp
  have e: "plantHistory demoGarden = []" by (simp add: demoGarden_fields)
  have 1: "map (\<lambda>h. (h_x h, h_y h))
             (plantHistory (spawnPlant failingDom 150 500 None True demoGarden)) = [(150, 500)]"
    by (simp add: spawnPlant_failed [OF h] e pushHistory_def)
  have "plantHistory (spawnPlant failingDom 150 500 None True demoGarden) \<noteq> []"
    using 1 by (rule_tac notI) simp
  then have "spawnPlant failingDom 150 500 None True demoGarden \<noteq> demoGarden"
    using e by metis
  then show ?thesis using h e 1 by blast
qed

text \<open>
  Claim C9, as the code has it. When the plant of the drag session is gone (no bottle
  plant has the session's identifier), a pointer move changes nothing at all: no plant
  is repositioned, nothing is spawned, and the session is still there. The session ends
  with the pointer-up, which clears the drag state.
\<close>

theorem stale_drag:
  assumes "dragState s = Some ds"
    and "find (\<lambda>p. p_id p = d_plantId ds) (bottlePlants s) = None"
  shows "handlePointerMove d e s = s \<and>
         dragState (handlePointerMove d e s) = Some ds \<and>
         handlePointerUp (handlePointerMove d e s) = s\<lparr>dragState := None\<rparr> \<and>
         dragState (handlePointerUp s) = None"
  using assms handlePointerMove_stale [OF assms] by (simp add: handlePointerUp_def)

text \<open>The theorem at the session whose plant was undone while it was dragged.\<close>

theorem stale_drag_witness:
  "dragState demoStale = Some \<lparr>d_plantId = 1 / 2, d_startX = 160, d_plantStartX = 150\<rparr> \<and>
   find (\<lambda>p. p_id p = 1 / 2) (bottlePlants demoStale) = None \<and>
   handlePointerMove demoDom (pointerAt 360 400) demoStale = demoStale \<and>
   dragState (handlePointerUp demoStale) = None"
proof -
  have f: "find (\<lambda>p. p_id p = d_plantId \<lparr>d_plantId = 1 / 2, d_startX = 160, d_plantStartX = 150\<rparr>)
             (bottlePlants demoStale) = None"
    by (simp add: demoStale_eval)
  show ?thesis
    using stale_drag [OF demoStale_eval(1) f, of demoDom "pointerAt 360 400"] demoStale_eval
    by simp
qed

text \<open>
  Claim C9 as stated (the session ends on the next pointer move) fails: after the move
  the drag state of the stale session is still set.
\<close>

theorem stale_drag_counterexample:
  "find (\<lambda>p. p_id p = 1 / 2) (bottlePlants demoStale) = None \<and>
   dragState demoStale = Some \<lparr>d_plantId = 1 / 2, d_startX = 160, d_plantStartX = 150\<rparr> \<and>
   dragState (handlePointerMove demoDom (pointerAt 360 400) demoStale) \<noteq> None"
  by (simp add: handlePointerMove_def demoStale_eval)

text \<open>
  Claim C10. The clear command. With the outside canvas mounted and giving its context,
  the effect of the clear trigger keeps exactly the growers whose context is not the
  outside context (so every grower on a plant's own canvas stays, unchanged and in
  order, and no grower on the outside canvas does), leaves the bottle plants and the
  history as they were, leaves every canvas but the outside one as it was, and (the
  outside canvas having the size of the dimensions) leaves on the outside canvas the
  paper-coloured fill alone.
\<close>

theorem clear_command:
  assumes "outsideCanvas d" and "outsideContext d"
  shows "growers (clearEffect d s) = filter (\<lambda>g. g_ctx g \<noteq> CanvasOutside) (growers s) \<and>
         (\<forall>g \<in> set (growers s). g_ctx g \<noteq> CanvasOutside \<longrightarrow> g \<in> set (growers (clearEffect d s))) \<and>
         (\<forall>g \<in> set (growers (clearEffect d s)). g_ctx g \<noteq> CanvasOutside) \<and>
         bottlePlants (clearEffect d s) = bottlePlants s \<and>
         plantHistory (clearEffect d s) = plantHistory s \<and>
         (\<forall>c. c \<noteq> CanvasOutside \<longrightarrow> canvases (clearEffect d s) c = canvases s c) \<and>
         (sized s CanvasOutside \<longrightarrow>
            content (canvases (clearEffect d s) CanvasOutside) =
              [FillRect (Solid ''#fdfbf7'') 0 0 (fst (dimensions s)) (snd (dimensions s))])"
proof -
  let ?f = "fillRect CanvasOutside ''#fdfbf7'' 0 0 (fst (dimensions s)) (snd (dimensions s)) s"
  have ce: "clearEffect d s = ?f\<lparr>growers := filter (\<lambda>g. g_ctx g \<noteq> CanvasOutside) (growers s)\<rparr>"
    by (rule clearEffect_ready [OF assms])
  have 1: "growers (clearEffect d s) = filter (\<lambda>g. g_ctx g \<noteq> CanvasOutside) (growers s)"
    by (simp add: ce)
  have 2: "bottlePlants (clearEffect d s) = bottlePlants s"
    "plantHistory (clearEffect d s) = plantHistory s"
    using sameBut_fields(7,8) [OF sameBut_fillRect] by (simp_all add: ce)
  have 3: "\<forall>c. c \<noteq> CanvasOutside \<longrightarrow> canvases (clearEffect d s) c = canvases s c"
    by (simp add: ce fillRect_canvases)
  have 4: "sized s CanvasOutside \<longrightarrow>
            content (canvases (clearEffect d s) CanvasOutside) =
              [FillRect (Solid ''#fdfbf7'') 0 0 (fst (dimensions s)) (snd (dimensions s))]"
    by (simp add: ce fillRect_canvases sized_covers)
  show ?thesis using 1 2 3 4 by auto
qed

text \<open>
  The theorem at the garden with the seed in the bottle and a vine outside: of the two
  growers the one on the plant's canvas stays, the bottle plant and the two history items
  stay, and the outside canvas shows the fill.
\<close>

theorem clear_command_witness:
  "outsideCanvas demoDom \<and> outsideContext demoDom \<and> sized demoBoth CanvasOutside \<and>
   map g_ctx (growers demoBoth) = [OffCanvas 0, CanvasOutside] \<and>
   map g_ctx (growers (clearEffect demoDom demoBoth)) = [OffCanvas 0] \<and>
   bottlePlants (clearEffect demoDom demoBoth) = bottlePlants demoBoth \<and>
   plantHistory (clearEffect demoDom demoBoth) = plantHistory demoBoth \<and>
   content (canvases (clearEffect demoDom demoBoth) CanvasOutside) =
     [FillRect (Solid ''#fdfbf7'') 0 0 800 600]"
proof -
  have h: "outsideCanvas demoDom" "outsideContext demoDom" by simp_all
  have sz: "sized demoBoth CanvasOutside" by (simp add: sized_def demoBoth_fields)
  note t = clear_command [OF h, of demoBoth]
  from t have g: "growers (clearEffect demoDom demoBoth) =
      filter (\<lambda>g. g_ctx g \<noteq> CanvasOutside) (growers demoBoth)" by blast
  have "map g_ctx (filter (\<lambda>g. g_ctx g \<noteq> CanvasOutside) (growers demoBoth))
      = filter (\<lambda>c. c \<noteq> CanvasOutside) (map g_ctx (growers demoBoth))"
    by (simp add: filter_map comp_def)
  then have 1: "map g_ctx (growers (clearEffect demoDom demoBoth)) = [OffCanvas 0]"
    by (simp add: g demoBoth_fields)
  from t sz have 2: "content (canvases (clearEffect demoDom demoBoth) CanvasOutside) =
     [FillRect (Solid ''#fdfbf7'') 0 0 (fst (dimensions demoBoth)) (snd (dimensions demoBoth))]"
    by blast
  from t have 3: "bottlePlants (clearEffect demoDom demoBoth) = bottlePlants demoBoth"
    "plantHistory (clearEffect demoDom demoBoth) = plantHistory demoBoth" by blast+
  show ?thesis using h sz 1 2 3 by (simp add: demoBoth_fields)
qed

text \<open>
  Claim C4. The bloom is attempted once. Follow one grower through its ticks: \<open>tr k\<close> is
  the grower before its tick number \<open>k\<close> and \<open>st k\<close> the state in which that tick steps it
  (any state: other growers draw and read random numbers in between). If the flag is
  unset at the start (as on every created grower), then: the flag is set before tick \<open>k\<close>
  exactly when some earlier tick found the grower terminal; the flag goes from unset to
  set in tick \<open>k\<close> exactly when \<open>k\<close> is the first tick that finds the grower terminal; tick
  \<open>k\<close> adds one flower to the grower's canvas when \<open>k\<close> is that first terminal tick, the
  generation is below 2 and the random number read is below the settings' flower
  probability, and adds no flower to any canvas otherwise; and once the flag is set a
  tick does nothing but count the life (it draws nothing and reads no random number).
\<close>

theorem bloom_once:
  assumes run: "\<forall>k. tr (Suc k) = fst (stepGrower noise (tr k) (st k))"
    and fresh: "\<not> g_hasAttemptedFlower (tr 0)"
  shows "(g_hasAttemptedFlower (tr k) \<longleftrightarrow> (\<exists>j<k. isTerminal (tr j))) \<and>
         ((\<not> g_hasAttemptedFlower (tr k) \<and> g_hasAttemptedFlower (tr (Suc k))) \<longleftrightarrow>
            (isTerminal (tr k) \<and> (\<forall>j<k. \<not> isTerminal (tr j)))) \<and>
         (\<forall>c. flowerCount (snd (snd (stepGrower noise (tr k) (st k)))) c =
            flowerCount (st k) c +
              (if c = g_ctx (tr k) \<and> isTerminal (tr k) \<and> (\<forall>j<k. \<not> isTerminal (tr j)) \<and>
                  g_generation (tr k) < 2 \<and>
                  rnd (st k) (rndPos (st k)) < flowerProbability (heap (st k) (g_settings (tr k)))
               then 1 else 0)) \<and>
         (g_hasAttemptedFlower (tr k) \<longrightarrow>
            stepGrower noise (tr k) (st k) = ((tr k)\<lparr>g_life := Suc (g_life (tr k))\<rparr>, [], st k))"
proof -
  have flag: "g_hasAttemptedFlower (tr k) \<longleftrightarrow> (\<exists>j<k. isTerminal (tr j))" for k
  proof (induction k)
    case 0
    then show ?case using fresh by simp
  next
    case (Suc k)
    have "g_hasAttemptedFlower (tr (Suc k)) \<longleftrightarrow> g_hasAttemptedFlower (tr k) \<or> isTerminal (tr k)"
      using run by (simp add: stepGrower_static)
    then show ?case using Suc.IH by (auto simp: less_Suc_eq)
  qed
  have stay: "isTerminal (tr j) \<Longrightarrow> j \<le> k \<Longrightarrow> isTerminal (tr k)" for j k
  proof (induction k)
    case 0
    then show ?case by simp
  next
    case (Suc k)
    show ?case
    proof (cases "j = Suc k")
      case True
      then show ?thesis using Suc.prems by simp
    next
      case False
      then have "isTerminal (tr k)" using Suc by simp
      then show ?thesis using run isTerminal_step by simp
    qed
  qed
  have 1: "g_hasAttemptedFlower (tr k) \<longleftrightarrow> (\<exists>j<k. isTerminal (tr j))" by (rule flag)
  have 2: "(\<not> g_hasAttemptedFlower (tr k) \<and> g_hasAttemptedFlower (tr (Suc k))) \<longleftrightarrow>
            (isTerminal (tr k) \<and> (\<forall>j<k. \<not> isTerminal (tr j)))"
    unfolding flag by (auto simp: less_Suc_eq)
  have nf: "\<not> g_hasAttemptedFlower (tr k) \<longleftrightarrow> (\<forall>j<k. \<not> isTerminal (tr j))"
    unfolding flag by blast
  have 3: "\<forall>c. flowerCount (snd (snd (stepGrower noise (tr k) (st k)))) c =
            flowerCount (st k) c +
              (if c = g_ctx (tr k) \<and> isTerminal (tr k) \<and> (\<forall>j<k. \<not> isTerminal (tr j)) \<and>
                  g_generation (tr k) < 2 \<and>
                  rnd (st k) (rndPos (st k)) < flowerProbability (heap (st k) (g_settings (tr k)))
               then 1 else 0)"
    unfolding flowerCount_stepGrower nf by simp
  have 4: "g_hasAttemptedFlower (tr k) \<longrightarrow>
            stepGrower noise (tr k) (st k) = ((tr k)\<lparr>g_life := Suc (g_life (tr k))\<rparr>, [], st k)"
  proof
    assume a: "g_hasAttemptedFlower (tr k)"
    then obtain j where "j < k" "isTerminal (tr j)" using flag by blast
    then have "isTerminal (tr k)" using stay [of j k] by simp
    then show "stepGrower noise (tr k) (st k) = ((tr k)\<lparr>g_life := Suc (g_life (tr k))\<rparr>, [], st k)"
      using a by (rule stepGrower_done)
  qed
  show ?thesis using 1 2 3 4 by blast
qed

text \<open>
  The theorem at the seed in the bottle, whose grower is terminal from its first tick
  and reads one half from the tape, below its flower probability 0.7: tick 0 sets the
  flag and draws one flower on the plant's canvas, tick 1 draws none and only counts the
  life.
\<close>

theorem bloom_once_witness:
  "(\<forall>k. demoTrace (Suc k) = fst (stepGrower demoNoise (demoTrace k) demoBottle)) \<and>
   \<not> g_hasAttemptedFlower (demoTrace 0) \<and>
   isTerminal (demoTrace 0) \<and>
   g_hasAttemptedFlower (demoTrace 1) \<and>
   flowerCount (snd (snd (stepGrower demoNoise (demoTrace 0) demoBottle))) (OffCanvas 0) =
     flowerCount demoBottle (OffCanvas 0) + 1 \<and>
   flowerCount (snd (snd (stepGrower demoNoise (demoTrace 1) demoBottle))) (OffCanvas 0) =
     flowerCount demoBottle (OffCanvas 0) \<and>
   stepGrower demoNoise (demoTrace 1) demoBottle =
     ((demoTrace 1)\<lparr>g_life := Suc (g_life (demoTrace 1))\<rparr>, [], demoBottle)"
proof -
  have run: "\<forall>k. demoTrace (Suc k) = fst (stepGrower demoNoise (demoTrace k) ((\<lambda>_. demoBottle) k))"
    using demoTrace_run by simp
  have fresh: "\<not> g_hasAttemptedFlower (demoTrace 0)" by (simp add: demoTrace_fields)
  note t0 = bloom_once [OF run fresh, of 0]
  note t1 = bloom_once [OF run fresh, of 1]
  have p: "rnd demoBottle (rndPos demoBottle) < flowerProbability (heap demoBottle (Suc 0))"
    by (simp add: demoBottle_fields demoSeed_def PRESET_VINE_def)
  from t0 have "flowerCount (snd (snd (stepGrower demoNoise (demoTrace 0) demoBottle))) (OffCanvas 0) =
     flowerCount demoBottle (OffCanvas 0) +
       (if OffCanvas 0 = g_ctx (demoTrace 0) \<and> isTerminal (demoTrace 0) \<and>
           (\<forall>j<0. \<not> isTerminal (demoTrace j)) \<and> g_generation (demoTrace 0) < 2 \<and>
           rnd demoBottle (rndPos demoBottle)
             < flowerProbability (heap demoBottle (g_settings (demoTrace 0)))
        then 1 else 0)"
    by blast
  then have a: "flowerCount (snd (snd (stepGrower demoNoise (demoTrace 0) demoBottle))) (OffCanvas 0) =
     flowerCount demoBottle (OffCanvas 0) + 1"
    using p by (simp add: demoTrace_fields demoTrace_terminal)
  from t1 have "flowerCount (snd (snd (stepGrower demoNoise (demoTrace 1) demoBottle))) (OffCanvas 0) =
     flowerCount demoBottle (OffCanvas 0) +
       (if OffCanvas 0 = g_ctx (demoTrace 1) \<and> isTerminal (demoTrace 1) \<and>
           (\<forall>j<1. \<not> isTerminal (demoTrace j)) \<and> g_generation (demoTrace 1) < 2 \<and>
           rnd demoBottle (rndPos demoBottle)
             < flowerProbability (heap demoBottle (g_settings (demoTrace 1)))
        then 1 else 0)"
    by blast
  then have b: "flowerCount (snd (snd (stepGrower demoNoise (demoTrace 1) demoBottle))) (OffCanvas 0) =
     flowerCount demoBottle (OffCanvas 0)"
    by (simp add: demoTrace_terminal)
  have f1: "g_hasAttemptedFlower (demoTrace 1)" by (simp add: demoTrace_fields)
  with t1 have c: "stepGrower demoNoise (demoTrace 1) demoBottle =
     ((demoTrace 1)\<lparr>g_life := Suc (g_life (demoTrace 1))\<rparr>, [], demoBottle)"
    by blast
  show ?thesis using demoTrace_run fresh demoTrace_terminal f1 a b c by blast
qed

text \<open>
  Claim C2. Generation scaling. \<open>createGrower\<close>, which the spawn calls with generation 0
  and a branch with its parent's generation plus 1, gives the grower the maximal life and
  the width of the settings divided by the generation plus 1. So in every reachable
  state, every live grower has generation 0, 1 or 2, and its maximal life and width are
  the \<^verbatim>\<open>maxLife\<close> and \<^verbatim>\<open>baseWidth\<close> of its settings object divided by its generation plus
  1 (also after the live settings were edited). Both decrease strictly with the
  generation: of two live growers on the same settings object, the one of the higher
  generation has the smaller maximal life when \<^verbatim>\<open>maxLife\<close> is positive, and the smaller
  width when \<^verbatim>\<open>baseWidth\<close> is positive.
\<close>

theorem generation_scaling:
  assumes "reachable s" and "g \<in> set (growers s)"
  shows "g_generation g \<in> {0, 1, 2} \<and>
         g_maxLife (fst (createGrower x0 y0 r c n a s)) = maxLife (heap s r) / (real n + 1) \<and>
         g_width (fst (createGrower x0 y0 r c n a s)) = baseWidth (heap s r) / (real n + 1) \<and>
         g_maxLife g = maxLife (heap s (g_settings g)) / (real (g_generation g) + 1) \<and>
         g_width g = baseWidth (heap s (g_settings g)) / (real (g_generation g) + 1) \<and>
         (\<forall>g' \<in> set (growers s).
            g_settings g' = g_settings g \<and> g_generation g < g_generation g' \<longrightarrow>
              (0 < maxLife (heap s (g_settings g)) \<longrightarrow> g_maxLife g' < g_maxLife g) \<and>
              (0 < baseWidth (heap s (g_settings g)) \<longrightarrow> g_width g' < g_width g))"
proof -
  have ok: "\<forall>u \<in> set (growers s). scaled s u"
    using reachable_invariant [OF assms(1)] by (simp add: invariant_def growerOk_def)
  then have sc: "scaled s g" using assms(2) by simp
  then have 1: "g_generation g \<in> {0, 1, 2}" by (auto simp: scaled_def)
  have 2: "x / (real m + 1) < x / (real n + 1)" if "n < m" "0 < x" for n m :: nat and x :: real
    using that by (simp add: frac_less2)
  have 3: "\<forall>g' \<in> set (growers s).
            g_settings g' = g_settings g \<and> g_generation g < g_generation g' \<longrightarrow>
              (0 < maxLife (heap s (g_settings g)) \<longrightarrow> g_maxLife g' < g_maxLife g) \<and>
              (0 < baseWidth (heap s (g_settings g)) \<longrightarrow> g_width g' < g_width g)"
  proof (intro ballI impI)
    fix g' assume m: "g' \<in> set (growers s)"
      and h: "g_settings g' = g_settings g \<and> g_generation g < g_generation g'"
    have sc': "scaled s g'" using ok m by simp
    show "(0 < maxLife (heap s (g_settings g)) \<longrightarrow> g_maxLife g' < g_maxLife g) \<and>
          (0 < baseWidth (heap s (g_settings g)) \<longrightarrow> g_width g' < g_width g)"
      using sc sc' h 2 [of "g_generation g" "g_generation g'"] by (simp add: scaled_def)
  qed
  show ?thesis using sc 1 3 by (simp add: scaled_def createGrower_fields)
qed

text \<open>
  The theorem at the vine on the branching tape after one tick: the stem (generation 0)
  and its branch (generation 1) have maximal lives 280 and 140 and widths 6 and 3.
\<close>

theorem generation_scaling_witness:
  "reachable (update demoNoise demoDom demoBranching) \<and>
   map g_generation (growers (update demoNoise demoDom demoBranching)) = [0, 1] \<and>
   map g_maxLife (growers (update demoNoise demoDom demoBranching)) = [280, 140] \<and>
   map g_width (growers (update demoNoise demoDom demoBranching)) = [6, 3]"
proof -
  let ?s = "update demoNoise demoDom demoBranching"
  have r: "reachable ?s" by (intro r_tick reachable_demoBranching)
  obtain g' c where gs: "growers ?s = [g', c]" and f: "g_generation g' = 0" "g_settings g' = 0"
      "g_generation c = 1" "g_settings c = 0"
    using demoBranching_tick by blast
  have m: "g' \<in> set (growers ?s)" "c \<in> set (growers ?s)" by (simp_all add: gs)
  have h: "heap ?s 0 = PRESET_VINE" by (simp add: update_fields demoBranching_growers(2))
  note t1 = generation_scaling [OF r m(1)]
  note t2 = generation_scaling [OF r m(2)]
  from t1 have a: "g_maxLife g' = 280" "g_width g' = 6" by (simp_all add: f h PRESET_VINE_def)
  from t2 have b: "g_maxLife c = 140" "g_width c = 3" by (simp_all add: f h PRESET_VINE_def)
  show ?thesis using r by (simp add: gs f a b)
qed

text \<open>
  Claim C5. A spawn's genome is not altered by later edits. In every reachable state, an
  edit of the live settings (\<open>updateSettings\<close>) leaves the growers, the history and the
  bottle plants as they are and leaves unchanged every settings object that a grower, a
  history item or a bottle plant refers to; what changes is that the live settings are a
  new object, the previous one merged with the edit. \<open>setSettings\<close> (a preset, an imported
  seed) only makes another object the live one. How a spawn hands the genome over: every
  grower it adds refers to the settings object it was given (the live one when none is
  given), the history item refers to a new object, a copy of it, and the spawn changes no
  object that existed.
\<close>

theorem genome_snapshot:
  assumes "reachable s"
  shows "growers (updateSettings n s) = growers s \<and>
         plantHistory (updateSettings n s) = plantHistory s \<and>
         bottlePlants (updateSettings n s) = bottlePlants s \<and>
         (\<forall>g \<in> set (growers s). heap (updateSettings n s) (g_settings g) = heap s (g_settings g)) \<and>
         (\<forall>h \<in> set (plantHistory s). heap (updateSettings n s) (h_settings h) = heap s (h_settings h)) \<and>
         (\<forall>p \<in> set (bottlePlants s). heap (updateSettings n s) (p_settings p) = heap s (p_settings p)) \<and>
         heap (updateSettings n s) (settings (updateSettings n s)) = merge (heap s (settings s)) n \<and>
         setSettings r s = s\<lparr>settings := r\<rparr> \<and>
         (let sref = (case ov of Some r' \<Rightarrow> r' | None \<Rightarrow> settings s);
              s' = spawnPlant d x0 y0 ov b s
          in (\<forall>g \<in> set (growers s'). g \<in> set (growers s) \<or> g_settings g = sref) \<and>
             plantHistory s' =
               pushHistory \<lparr>h_x = x0, h_y = y0, h_settings = heapNext s, h_timestamp = now d\<rparr>
                 (plantHistory s) \<and>
             \<not> allocated s (heapNext s) \<and> allocated s' (heapNext s) \<and>
             heap s' (heapNext s) = heap s sref \<and>
             (\<forall>r' < heapNext s. heap s' r' = heap s r'))"
proof -
  have i: "invariant s" by (rule reachable_invariant [OF assms])
  have 1: "growers (updateSettings n s) = growers s"
    "plantHistory (updateSettings n s) = plantHistory s"
    "bottlePlants (updateSettings n s) = bottlePlants s"
    "heap (updateSettings n s) (settings (updateSettings n s)) = merge (heap s (settings s)) n"
    by (simp_all add: updateSettings_unfold)
  have old: "heap (updateSettings n s) r' = heap s r'" if "allocated s r'" for r'
    using that by (simp add: updateSettings_unfold allocated_def)
  have 2: "\<forall>g \<in> set (growers s). heap (updateSettings n s) (g_settings g) = heap s (g_settings g)"
    using i old by (simp add: invariant_def growerOk_def)
  have 3: "\<forall>h \<in> set (plantHistory s). heap (updateSettings n s) (h_settings h) = heap s (h_settings h)"
    using i old by (simp add: invariant_def)
  have 4: "\<forall>p \<in> set (bottlePlants s). heap (updateSettings n s) (p_settings p) = heap s (p_settings p)"
    using i old by (simp add: invariant_def plantOk_def)
  have 5: "setSettings r s = s\<lparr>settings := r\<rparr>" by (simp add: setSettings_def)
  have 6: "\<forall>g \<in> set (growers (spawnPlant d x0 y0 ov b s)).
      g \<in> set (growers s) \<or> g_settings g = (case ov of Some r' \<Rightarrow> r' | None \<Rightarrow> settings s)"
    using spawnPlant_new_grower by blast
  have 7: "\<not> allocated s (heapNext s)" "allocated (spawnPlant d x0 y0 ov b s) (heapNext s)"
    "heap (spawnPlant d x0 y0 ov b s) (heapNext s)
       = heap s (case ov of Some r' \<Rightarrow> r' | None \<Rightarrow> settings s)"
    "\<forall>r' < heapNext s. heap (spawnPlant d x0 y0 ov b s) r' = heap s r'"
    by (simp_all add: allocated_def spawnPlant_heap)
  show ?thesis
    unfolding Let_def using 1 2 3 4 5 6 7 spawnPlant_heap(3) by blast
qed

text \<open>
  The theorem at the vine painted outside: its grower refers to object 0, the live
  settings themselves; after the edit that sets the lifetime to 100 the live settings
  have lifetime 100, and the grower's settings still have 280.
\<close>

theorem genome_snapshot_witness:
  "reachable demoBranching \<and>
   settings demoBranching = 0 \<and>
   map g_settings (growers demoBranching) = [0] \<and>
   maxLife (heap demoBranching 0) = 280 \<and>
   maxLife (heap (updateSettings demoPatch demoBranching)
              (settings (updateSettings demoPatch demoBranching))) = 100 \<and>
   map (\<lambda>g. maxLife (heap (updateSettings demoPatch demoBranching) (g_settings g)))
     (growers (updateSettings demoPatch demoBranching)) = [280]"
proof -
  note t = genome_snapshot [OF reachable_demoBranching, of demoPatch]
  have g: "map g_settings (growers demoBranching) = [0]" by (simp add: demoBranching_growers(1))
  have m: "maxLife (heap demoBranching 0) = 280"
    by (simp add: demoBranching_growers(2) PRESET_VINE_def)
  from t have a: "growers (updateSettings demoPatch demoBranching) = growers demoBranching"
    and b: "\<forall>g \<in> set (growers demoBranching).
        heap (updateSettings demoPatch demoBranching) (g_settings g) = heap demoBranching (g_settings g)"
    and c: "heap (updateSettings demoPatch demoBranching) (settings (updateSettings demoPatch demoBranching))
        = merge (heap demoBranching (settings demoBranching)) demoPatch"
    by blast+
  have 1: "maxLife (heap (updateSettings demoPatch demoBranching)
              (settings (updateSettings demoPatch demoBranching))) = 100"
    unfolding c by (simp add: merge_def demoPatch_def noChange_def)
  have 2: "map (\<lambda>g. maxLife (heap (updateSettings demoPatch demoBranching) (g_settings g)))
     (growers (updateSettings demoPatch demoBranching)) = [280]"
    unfolding a using b by (simp add: demoBranching_growers PRESET_VINE_def)
  show ?thesis using reachable_demoBranching demoBranching_more(1) g m 1 2 by blast
qed

text \<open>
  Claim C6. The composite. In every reachable state, with the inside canvas mounted and
  giving its context, after a tick the inside canvas shows exactly one image per bottle
  plant, in the plants' order: the plant's own canvas as it is after all growers have
  stepped in this tick, at the horizontal offset \<^verbatim>\<open>currentX - originX\<close> and the vertical
  offset 0; nothing of what it showed before is left. Every other canvas (the outside
  canvas, the plants' own canvases) shows after the tick what it showed before, followed
  by strokes, leaves and flowers only: a tick wipes neither.
\<close>

theorem tick_composite:
  assumes "reachable s" and "insideCanvas d" and "insideContext d"
  shows "(let s1 = snd (snd (forEachGrower noise (growers s) s))
          in content (canvases (update noise d s) CanvasInside) =
               map (\<lambda>p. DrawImage (content (canvases s1 (p_canvas p)))
                      (p_currentX p - p_originX p) 0) (bottlePlants s)) \<and>
         (\<forall>c. c \<noteq> CanvasInside \<longrightarrow>
            (\<exists>added. content (canvases (update noise d s) c) = content (canvases s c) @ added \<and>
                      (\<forall>cmd \<in> set added. isShape cmd)))"
proof -
  let ?s1 = "snd (snd (forEachGrower noise (growers s) s))"
  define G where "G = growers (update noise d s)"
  let ?s2 = "?s1\<lparr>growers := G\<rparr>"
  have i: "invariant s" by (rule reachable_invariant [OF assms(1)])
  have sb: "sameBut s ?s1" by (rule sameBut_forEachGrower)
  have pt: "paints isShape s ?s1" by (rule paints_forEachGrower)
  have u: "update noise d s = compositeBottlePlants ?s2"
    unfolding G_def using assms(2,3) by (subst update_unfold) simp
  have bp: "bottlePlants ?s2 = bottlePlants s" by (simp add: sameBut_fields(7) [OF sb])
  have off: "\<forall>p \<in> set (bottlePlants ?s2). p_canvas p \<noteq> CanvasInside"
    using i by (auto simp: bp invariant_def plantOk_def offscreen_def)
  have "sized ?s1 CanvasInside"
    using i sized_extends(2) [OF sameBut_extends [OF sb pt]] by (simp add: invariant_def)
  then have sz: "sized ?s2 CanvasInside" by (simp add: sized_def)
  have 1: "content (canvases (update noise d s) CanvasInside) =
               map (\<lambda>p. DrawImage (content (canvases ?s1 (p_canvas p)))
                      (p_currentX p - p_originX p) 0) (bottlePlants s)"
    unfolding u using composite_canvases(1) [OF off sz] by (simp add: bp)
  have 2: "\<forall>c. c \<noteq> CanvasInside \<longrightarrow>
            (\<exists>added. content (canvases (update noise d s) c) = content (canvases s c) @ added \<and>
                      (\<forall>cmd \<in> set added. isShape cmd))"
  proof (intro allI impI)
    fix c :: canvas_id assume c: "c \<noteq> CanvasInside"
    have "canvases (update noise d s) c = canvases ?s1 c"
      unfolding u using composite_canvases(2) [OF off sz c] by simp
    then show "\<exists>added. content (canvases (update noise d s) c) = content (canvases s c) @ added \<and>
                      (\<forall>cmd \<in> set added. isShape cmd)"
      using pt by (simp add: paints_def)
  qed
  show ?thesis unfolding Let_def using 1 2 by blast
qed

text \<open>
  The theorem at the plant that was dragged from 150 to 280: the inside canvas shows the
  plant's canvas once, at the offset 130, and the outside canvas has only gained.
\<close>

theorem tick_composite_witness:
  "reachable demoDragged \<and> insideCanvas demoDom \<and> insideContext demoDom \<and>
   map (\<lambda>p. (p_originX p, p_currentX p)) (bottlePlants demoDragged) = [(150, 280)] \<and>
   content (canvases (update demoNoise demoDom demoDragged) CanvasInside) =
     [DrawImage
        (content (canvases (snd (snd (forEachGrower demoNoise (growers demoDragged) demoDragged)))
           (OffCanvas 0))) 130 0] \<and>
   (\<exists>added. content (canvases (update demoNoise demoDom demoDragged) CanvasOutside) =
       content (canvases demoDragged CanvasOutside) @ added)"
proof -
  have h: "insideCanvas demoDom" "insideContext demoDom" by simp_all
  note t = tick_composite [OF reachable_demoDragged h, of demoNoise, unfolded Let_def]
  from t have 1: "content (canvases (update demoNoise demoDom demoDragged) CanvasInside) =
     [DrawImage
        (content (canvases (snd (snd (forEachGrower demoNoise (growers demoDragged) demoDragged)))
           (OffCanvas 0))) 130 0]"
    by (simp add: demoDragged_fields(1))
  from t have 2: "\<exists>added. content (canvases (update demoNoise demoDom demoDragged) CanvasOutside) =
       content (canvases demoDragged CanvasOutside) @ added"
    by blast
  show ?thesis using reachable_demoDragged h 1 2 by (simp add: demoDragged_fields(1))
qed

end
